theory Spec2Isabelle
  imports Complex_Main "HOL-Library.Log_Nat"
begin

section \<open>JavaScript values and coercions used by task-cli.js\<close>

text \<open>
  A JavaScript number is \<open>NaN\<close>, an infinity or a finite double, kept as the rational
  it denotes. The two zeros are one value; \<open>===\<close> does not tell them apart either.
\<close>

datatype number = NaN | Fin rat | PosInf | NegInf

text \<open>
  The double nearest to a rational (IEEE 754 binary64, ties to even): \<open>floorLog2\<close> is the
  position of the leading bit of a positive rational, the quantum \<open>u\<close> is 52 bits below
  it but not below \<open>2 ^ - 1074\<close>, and the value is rounded to a multiple of the quantum.
  From \<open>2 ^ 1024\<close> on the result is an infinity. Whatever the program computes or parses
  goes through \<open>toDouble\<close>: \<open>parseInt\<close>, \<open>Number\<close> of a string, and \<open>+ 1\<close>.
\<close>

definition roundHalfEven :: "rat \<Rightarrow> int" where
  "roundHalfEven x =
     (let f = \<lfloor>x\<rfloor>; d = x - of_int f
      in if d < 1 / 2 then f else if 1 / 2 < d then f + 1 else if even f then f else f + 1)"

definition floorLog2 :: "rat \<Rightarrow> int" where
  "floorLog2 x = (if 1 \<le> x then bitlen \<lfloor>x\<rfloor> - 1 else - bitlen (\<lceil>1 / x\<rceil> - 1))"

definition toDouble :: "rat \<Rightarrow> number" where
  "toDouble x =
     (if x = 0 then Fin 0
      else
        (let qe = max (floorLog2 \<bar>x\<bar> - 52) (- 1074);
             u = (if 0 \<le> qe then 2 ^ nat qe else 1 / 2 ^ nat (- qe) :: rat);
             m = roundHalfEven (x / u)
         in if 972 \<le> qe \<or> (qe = 971 \<and> 2 ^ 53 \<le> \<bar>m\<bar>)
            then (if 0 < x then PosInf else NegInf)
            else Fin (of_int m * u)))"

text \<open>
  The value of the \<open>id\<close> property of a stored task, as \<open>JSON.parse\<close> returns it (a
  number is the double that was read). The program writes a number there, but reads the
  property through \<open>Number(t.id)\<close>, so a hand-edited file may hold any JSON scalar, or
  lack the property (\<open>JUndefined\<close>).
\<close>

datatype js_value = JUndefined | JNull | JBool bool | JNumber rat | JString string

text \<open>
  Strings are lists of 8-bit code units. \<open>StrWhiteSpaceChar\<close> of ECMAScript, on that
  range: TAB, LF, VT, FF, CR, SP and NBSP.
\<close>

definition isWhiteSpace :: "char \<Rightarrow> bool" where
  "isWhiteSpace c = (of_char c \<in> set [9, 10, 11, 12, 13, 32, 160 :: nat])"

definition trimStart :: "string \<Rightarrow> string" where
  "trimStart s = dropWhile isWhiteSpace s"

definition trim :: "string \<Rightarrow> string" where
  "trim s = rev (dropWhile isWhiteSpace (rev (dropWhile isWhiteSpace s)))"

definition isDigit :: "char \<Rightarrow> bool" where
  "isDigit c = (48 \<le> (of_char c :: nat) \<and> (of_char c :: nat) \<le> 57)"

definition digitValue :: "char \<Rightarrow> nat" where
  "digitValue c = of_char c - 48"

text \<open>The mathematical value of a string of digits in base \<open>r\<close>, left to right.\<close>

definition radixValue :: "int \<Rightarrow> (char \<Rightarrow> nat) \<Rightarrow> string \<Rightarrow> int" where
  "radixValue r dv ds = foldl (\<lambda>a c. r * a + int (dv c)) 0 ds"

definition decimalValue :: "string \<Rightarrow> int" where
  "decimalValue ds = radixValue 10 digitValue ds"

text \<open>
  \<open>parseInt(string, 10)\<close>: leading white space is dropped, one sign is read, then the
  longest run of decimal digits; what follows the digits is ignored. With no digit the
  result is \<open>NaN\<close>. The radix is 10, so no \<open>0x\<close> prefix is stripped. The result is the
  double nearest to the integer read (ECMAScript lets an engine drop the digits after
  the 20th; the engines round the full value).
\<close>

definition parseInt :: "string \<Rightarrow> number" where
  "parseInt inputString =
     (let S = trimStart inputString;
          sign = (if S \<noteq> [] \<and> hd S = CHR ''-'' then - 1 else 1 :: rat);
          S' = (if S \<noteq> [] \<and> (hd S = CHR ''+'' \<or> hd S = CHR ''-'') then tl S else S);
          Z = takeWhile isDigit S'
      in if Z = [] then NaN else toDouble (sign * of_int (decimalValue Z)))"

definition Number_isNaN :: "number \<Rightarrow> bool" where
  "Number_isNaN n = (n = NaN)"

definition Number_isInteger :: "number \<Rightarrow> bool" where
  "Number_isInteger n = (case n of Fin q \<Rightarrow> q = of_int \<lfloor>q\<rfloor> | _ \<Rightarrow> False)"

text \<open>\<open>n > 0\<close> on numbers: false whenever \<open>n\<close> is \<open>NaN\<close>.\<close>

definition greaterThanZero :: "number \<Rightarrow> bool" where
  "greaterThanZero n = (case n of Fin q \<Rightarrow> 0 < q | PosInf \<Rightarrow> True | _ \<Rightarrow> False)"

text \<open>\<open>a === b\<close> on numbers: \<open>NaN\<close> equals nothing, itself included.\<close>

definition strictEquals :: "number \<Rightarrow> number \<Rightarrow> bool" where
  "strictEquals a b = (a \<noteq> NaN \<and> b \<noteq> NaN \<and> a = b)"

text \<open>\<open>Math.max\<close> of two and of many: \<open>NaN\<close> is contagious, no argument gives \<open>-Infinity\<close>.\<close>

definition max2 :: "number \<Rightarrow> number \<Rightarrow> number" where
  "max2 a b =
     (if a = NaN \<or> b = NaN then NaN
      else if a = PosInf \<or> b = PosInf then PosInf
      else if a = NegInf then b
      else if b = NegInf then a
      else (case (a, b) of (Fin x, Fin y) \<Rightarrow> Fin (max x y) | _ \<Rightarrow> NaN))"

definition Math_max :: "number list \<Rightarrow> number" where
  "Math_max ns = foldl max2 NegInf ns"

text \<open>\<open>n + 1\<close> on numbers: the double nearest to the sum.\<close>

definition plusOne :: "number \<Rightarrow> number" where
  "plusOne n = (case n of Fin q \<Rightarrow> toDouble (q + 1) | other \<Rightarrow> other)"

subsection \<open>\<open>Number(string)\<close>\<close>

definition isHexDigit :: "char \<Rightarrow> bool" where
  "isHexDigit c =
     (let n = (of_char c :: nat)
      in (48 \<le> n \<and> n \<le> 57) \<or> (65 \<le> n \<and> n \<le> 70) \<or> (97 \<le> n \<and> n \<le> 102))"

definition hexValue :: "char \<Rightarrow> nat" where
  "hexValue c =
     (let n = (of_char c :: nat)
      in if n \<le> 57 then n - 48 else if n \<le> 70 then n - 55 else n - 87)"

definition isOctalDigit :: "char \<Rightarrow> bool" where
  "isOctalDigit c = (48 \<le> (of_char c :: nat) \<and> (of_char c :: nat) \<le> 55)"

definition isBinaryDigit :: "char \<Rightarrow> bool" where
  "isBinaryDigit c = (c = CHR ''0'' \<or> c = CHR ''1'')"

text \<open>
  \<open>NonDecimalIntegerLiteral\<close>: \<open>0x\<close>, \<open>0o\<close> or \<open>0b\<close> (either case), then at least one
  digit of that base and nothing else. No sign is allowed.
\<close>

definition nonDecimalLiteral :: "string \<Rightarrow> number option" where
  "nonDecimalLiteral s =
     (case s of
        c0 # p # ds \<Rightarrow>
          if c0 \<noteq> CHR ''0'' \<or> ds = [] then None
          else if (p = CHR ''x'' \<or> p = CHR ''X'') \<and> list_all isHexDigit ds
            then Some (toDouble (of_int (radixValue 16 hexValue ds)))
          else if (p = CHR ''o'' \<or> p = CHR ''O'') \<and> list_all isOctalDigit ds
            then Some (toDouble (of_int (radixValue 8 digitValue ds)))
          else if (p = CHR ''b'' \<or> p = CHR ''B'') \<and> list_all isBinaryDigit ds
            then Some (toDouble (of_int (radixValue 2 digitValue ds)))
          else None
      | _ \<Rightarrow> None)"

text \<open>\<open>ExponentPart\<close>, or nothing: \<open>e\<close> or \<open>E\<close>, an optional sign, at least one digit.\<close>

definition exponentPart :: "string \<Rightarrow> int option" where
  "exponentPart s =
     (case s of
        [] \<Rightarrow> Some 0
      | c # r \<Rightarrow>
          if c \<noteq> CHR ''e'' \<and> c \<noteq> CHR ''E'' then None
          else
            (let neg = (r \<noteq> [] \<and> hd r = CHR ''-'');
                 ds = (if r \<noteq> [] \<and> (hd r = CHR ''+'' \<or> hd r = CHR ''-'') then tl r else r)
             in if ds = [] \<or> \<not> list_all isDigit ds then None
                else Some (if neg then - decimalValue ds else decimalValue ds)))"

text \<open>
  \<open>StrUnsignedDecimalLiteral\<close>: \<open>Infinity\<close>, or digits with an optional fraction and
  exponent; a digit is required before or after the point. The value is the double
  nearest to the decimal, an infinity when that is out of range.
\<close>

definition unsignedDecimalLiteral :: "string \<Rightarrow> number" where
  "unsignedDecimalLiteral s =
     (if s = ''Infinity'' then PosInf
      else
        (let ip = takeWhile isDigit s;
             r1 = dropWhile isDigit s;
             dot = (r1 \<noteq> [] \<and> hd r1 = CHR ''.'');
             fp = (if dot then takeWhile isDigit (tl r1) else []);
             r2 = (if dot then dropWhile isDigit (tl r1) else r1)
         in if ip = [] \<and> fp = [] then NaN
            else
              (case exponentPart r2 of
                 None \<Rightarrow> NaN
               | Some e \<Rightarrow>
                   (let m = (of_int (decimalValue (ip @ fp)) :: rat);
                        k = e - int (length fp)
                    in toDouble (if 0 \<le> k then m * 10 ^ nat k else m / 10 ^ nat (- k))))))"

definition negate :: "number \<Rightarrow> number" where
  "negate n = (case n of NaN \<Rightarrow> NaN | Fin q \<Rightarrow> Fin (- q) | PosInf \<Rightarrow> NegInf | NegInf \<Rightarrow> PosInf)"

text \<open>\<open>StringToNumber\<close>: white space around the literal is dropped; the empty string is 0.\<close>

definition StringToNumber :: "string \<Rightarrow> number" where
  "StringToNumber str =
     (let s = trim str
      in if s = [] then Fin 0
         else
           (case nonDecimalLiteral s of
              Some n \<Rightarrow> n
            | None \<Rightarrow>
                if hd s = CHR ''-'' then negate (unsignedDecimalLiteral (tl s))
                else if hd s = CHR ''+'' then unsignedDecimalLiteral (tl s)
                else unsignedDecimalLiteral s))"

text \<open>\<open>Number(v)\<close>.\<close>

fun Number :: "js_value \<Rightarrow> number" where
  "Number JUndefined = NaN"
| "Number JNull = Fin 0"
| "Number (JBool b) = Fin (if b then 1 else 0)"
| "Number (JNumber q) = Fin q"
| "Number (JString s) = StringToNumber s"

text \<open>\<open>Array.prototype.join\<close> and \<open>Array.prototype.findIndex\<close> (\<open>-1\<close> when nothing matches).\<close>

fun join :: "string \<Rightarrow> string list \<Rightarrow> string" where
  "join sep [] = []"
| "join sep [x] = x"
| "join sep (x # y # ys) = x @ sep @ join sep (y # ys)"

fun findIndex :: "('a \<Rightarrow> bool) \<Rightarrow> 'a list \<Rightarrow> int" where
  "findIndex P [] = - 1"
| "findIndex P (x # xs) =
     (if P x then 0 else (let i = findIndex P xs in if i = - 1 then - 1 else i + 1))"

section \<open>Tasks, the data file and what a run prints\<close>

text \<open>
  A time stamp is the time value of \<open>new Date()\<close> in milliseconds; the file holds its
  \<open>toISOString()\<close> text, which the program never reads back as a date.
\<close>

type_synonym timestamp = int

text \<open>
  A task has the six properties of the object literal in \<open>cmdAdd\<close>. The field \<open>id'\<close> is
  the property \<open>id\<close> (the name \<open>id\<close> is the identity function of HOL). The model
  covers the data files whose array holds objects of this shape: strings for name,
  description and status, time stamps, and any JSON scalar as the id.
\<close>

record task =
  id' :: js_value
  name :: string
  description :: string
  status :: string
  createdAt :: timestamp
  updatedAt :: timestamp

text \<open>
  What \<open>JSON.parse(raw)\<close> makes of the text of the file: it throws a \<open>SyntaxError\<close> with
  a message, or returns a value that is no array, or returns an array of tasks.
\<close>

datatype parsed = SyntaxError string | NonArray | Array "task list"

text \<open>
  The data file as \<open>loadTasks\<close> sees it: absent; present but \<open>readFileSync\<close> throws;
  or a text, given by whether \<open>raw.trim()\<close> is empty and by what \<open>JSON.parse\<close> makes of
  it.
\<close>

datatype data_file = Absent | Unreadable string | Text bool parsed

text \<open>
  What a call of \<open>writeFileSync\<close> that throws leaves behind. The call opens the file,
  which empties it, writes the text and closes the file. When the open fails the file is
  untouched; when a write fails the file holds a proper part of the text, none of it
  perhaps (the flag), and that part is not JSON (the message is what \<open>JSON.parse\<close> would
  say of it); when only the close fails the whole text is there.
\<close>

datatype leftover = Untouched | Truncated bool string | Complete

text \<open>
  The disk: the data file, and whether \<open>writeFileSync\<close> throws, then with its message
  and with what it leaves behind.
\<close>

record disk =
  dataFile :: data_file
  write_error :: "(string \<times> leftover) option"

text \<open>
  The lines a run prints, by the data they are built from, and the events of a run:
  a line on standard output, a line on standard error, a call of \<open>fs.writeFileSync\<close>.
\<close>

datatype message =
    LoadWarning string
  | WriteFailed string
  | UsageAdd
  | UsageUpdate
  | UsageDelete
  | UsageMark string
  | UsageList
  | InvalidId
  | NotFound number
  | Added number
  | Updated number
  | Deleted number
  | Marked number string
  | NothingToShow
  | TaskLine js_value string "string option" string timestamp timestamp
  | Help
  | UnknownCommand string

datatype event = Stdout message | Stderr message | WriteFile "task list"

text \<open>The outcome of a run: its events in order, its exit code, the disk it leaves.\<close>

record outcome =
  events :: "event list"
  exit_code :: nat
  disk_after :: disk

section \<open>The program\<close>

definition loadTasks :: "disk \<Rightarrow> task list \<times> event list" where
  "loadTasks d =
     (case dataFile d of
        Absent \<Rightarrow> ([], [])
      | Unreadable err \<Rightarrow> ([], [Stderr (LoadWarning err)])
      | Text blank p \<Rightarrow>
          if blank then ([], [])
          else
            (case p of
               SyntaxError err \<Rightarrow> ([], [Stderr (LoadWarning err)])
             | NonArray \<Rightarrow> ([], [])
             | Array ts \<Rightarrow> (ts, [])))"

text \<open>
  A number as the file keeps it: \<open>JSON.stringify\<close> writes \<open>null\<close> for a number that is
  not finite, and the next \<open>JSON.parse\<close> reads that back.
\<close>

definition jsonNumber :: "number \<Rightarrow> js_value" where
  "jsonNumber n = (case n of Fin q \<Rightarrow> JNumber q | _ \<Rightarrow> JNull)"

text \<open>The file after a write of \<open>tasks\<close> that threw.\<close>

definition afterFailure :: "leftover \<Rightarrow> task list \<Rightarrow> data_file \<Rightarrow> data_file" where
  "afterFailure l tasks old =
     (case l of
        Untouched \<Rightarrow> old
      | Truncated blank err \<Rightarrow> Text blank (SyntaxError err)
      | Complete \<Rightarrow> Text False (Array tasks))"

text \<open>
  \<open>saveTasks\<close>: \<open>Inl (1, d')\<close> is \<open>process.exit(1)\<close> on the disk \<open>d'\<close> that the failed
  write left. The text written is never blank, and parses back to the array.
\<close>

definition saveTasks :: "task list \<Rightarrow> disk \<Rightarrow> event list \<times> (nat \<times> disk + disk)" where
  "saveTasks tasks d =
     (case write_error d of
        None \<Rightarrow> ([WriteFile tasks], Inr (d\<lparr>dataFile := Text False (Array tasks)\<rparr>))
      | Some (err, l) \<Rightarrow>
          ([WriteFile tasks, Stderr (WriteFailed err)],
           Inl (1, d\<lparr>dataFile := afterFailure l tasks (dataFile d)\<rparr>)))"

text \<open>The test \<open>Number(t.id) === id\<close> of \<open>findIndex\<close> and, negated, of \<open>filter\<close>.\<close>

definition sameId :: "number \<Rightarrow> task \<Rightarrow> bool" where
  "sameId n t = strictEquals (Number (id' t)) n"

definition getNextId :: "task list \<Rightarrow> number" where
  "getNextId tasks =
     (let ids = filter (\<lambda>n. Number_isInteger n \<and> greaterThanZero n)
                  (map (\<lambda>t. Number (id' t)) tasks)
      in if length ids = 0 then Fin 1 else plusOne (Math_max ids))"

definition printTask :: "task \<Rightarrow> event" where
  "printTask t =
     Stdout (TaskLine (id' t) (name t)
       (if description t \<noteq> [] then Some (description t) else None)
       (status t) (createdAt t) (updatedAt t))"

text \<open>A run that stops with \<open>process.exit(1)\<close>, and one that ends normally.\<close>

definition exit1 :: "event list \<Rightarrow> disk \<Rightarrow> outcome" where
  "exit1 evs d = \<lparr>events = evs, exit_code = 1, disk_after = d\<rparr>"

definition finish :: "event list \<Rightarrow> disk \<Rightarrow> outcome" where
  "finish evs d = \<lparr>events = evs, exit_code = 0, disk_after = d\<rparr>"

text \<open>The common tail of the writing commands: save, then print the confirmation.\<close>

definition saveAndLog :: "event list \<Rightarrow> task list \<Rightarrow> message \<Rightarrow> disk \<Rightarrow> outcome" where
  "saveAndLog evs tasks msg d =
     (case saveTasks tasks d of
        (w, Inl (code, d')) \<Rightarrow> \<lparr>events = evs @ w, exit_code = code, disk_after = d'\<rparr>
      | (w, Inr d') \<Rightarrow> finish (evs @ w @ [Stdout msg]) d')"

definition cmdAdd :: "timestamp \<Rightarrow> string list \<Rightarrow> disk \<Rightarrow> outcome" where
  "cmdAdd now args d =
     (if length args = 0 then exit1 [Stderr UsageAdd] d
      else
        (let name0 = hd args;
             description0 = (if length args > 1 then join '' '' (tl args) else []);
             (tasks, evs) = loadTasks d;
             newId = getNextId tasks;
             t = \<lparr>id' = jsonNumber newId, name = name0, description = description0,
                  status = ''todo'', createdAt = now, updatedAt = now\<rparr>
         in saveAndLog evs (tasks @ [t]) (Added newId) d))"

definition cmdUpdate :: "timestamp \<Rightarrow> string list \<Rightarrow> disk \<Rightarrow> outcome" where
  "cmdUpdate now args d =
     (if length args < 2 then exit1 [Stderr UsageUpdate] d
      else
        (let n = parseInt (hd args)
         in if Number_isNaN n then exit1 [Stderr InvalidId] d
            else
              (let newDesc = join '' '' (tl args);
                   (tasks, evs) = loadTasks d;
                   idx = findIndex (sameId n) tasks
               in if idx = - 1 then exit1 (evs @ [Stderr (NotFound n)]) d
                  else
                    saveAndLog evs
                      (tasks[nat idx := (tasks ! nat idx)\<lparr>description := newDesc, updatedAt := now\<rparr>])
                      (Updated n) d)))"

definition cmdDelete :: "string list \<Rightarrow> disk \<Rightarrow> outcome" where
  "cmdDelete args d =
     (if length args < 1 then exit1 [Stderr UsageDelete] d
      else
        (let n = parseInt (hd args)
         in if Number_isNaN n then exit1 [Stderr InvalidId] d
            else
              (let (tasks, evs) = loadTasks d;
                   beforeLen = length tasks;
                   tasks' = filter (\<lambda>t. \<not> sameId n t) tasks
               in if length tasks' = beforeLen then exit1 (evs @ [Stderr (NotFound n)]) d
                  else saveAndLog evs tasks' (Deleted n) d)))"

definition cmdMark :: "timestamp \<Rightarrow> string list \<Rightarrow> string \<Rightarrow> disk \<Rightarrow> outcome" where
  "cmdMark now args newStatus d =
     (if length args < 1
      then exit1 [Stderr (UsageMark (if newStatus = ''done'' then ''mark-done'' else ''mark-in-progress''))] d
      else
        (let n = parseInt (hd args)
         in if Number_isNaN n then exit1 [Stderr InvalidId] d
            else
              (let (tasks, evs) = loadTasks d;
                   idx = findIndex (sameId n) tasks
               in if idx = - 1 then exit1 (evs @ [Stderr (NotFound n)]) d
                  else
                    saveAndLog evs
                      (tasks[nat idx := (tasks ! nat idx)\<lparr>status := newStatus, updatedAt := now\<rparr>])
                      (Marked n newStatus) d)))"

definition allowed :: "string list" where
  "allowed = [''todo'', ''in-progress'', ''done'']"

text \<open>
  \<open>cmdList\<close>: the filter is the first argument when it is a non-empty string (an empty
  one is falsy, and lists everything).
\<close>

definition cmdList :: "string list \<Rightarrow> disk \<Rightarrow> outcome" where
  "cmdList args d =
     (let filter0 = (if length args \<noteq> 0 then Some (hd args) else None);
          truthy = (case filter0 of Some f \<Rightarrow> f \<noteq> [] | None \<Rightarrow> False)
      in if truthy \<and> \<not> (case filter0 of Some f \<Rightarrow> f \<in> set allowed | None \<Rightarrow> False)
         then exit1 [Stderr UsageList] d
         else
           (let (tasks, evs) = loadTasks d;
                toPrint = (if truthy then filter (\<lambda>t. Some (status t) = filter0) tasks else tasks)
            in if length toPrint = 0 then finish (evs @ [Stdout NothingToShow]) d
               else finish (evs @ map printTask toPrint) d))"

definition printHelp :: "event" where
  "printHelp = Stdout Help"

text \<open>\<open>main\<close> on \<open>process.argv.slice(2)\<close>, at the clock reading \<open>now\<close>.\<close>

definition main :: "timestamp \<Rightarrow> string list \<Rightarrow> disk \<Rightarrow> outcome" where
  "main now argv d =
     (case argv of
        [] \<Rightarrow> finish [printHelp] d
      | command # args \<Rightarrow>
          if command = ''add'' then cmdAdd now args d
          else if command = ''update'' then cmdUpdate now args d
          else if command = ''delete'' then cmdDelete args d
          else if command = ''mark-in-progress'' then cmdMark now args ''in-progress'' d
          else if command = ''mark-done'' then cmdMark now args ''done'' d
          else if command = ''list'' then cmdList args d
          else if command = ''help'' \<or> command = [] then finish [printHelp] d
          else exit1 [Stderr (UnknownCommand command), printHelp] d)"

section \<open>Runs in sequence\<close>

text \<open>
  The collection a run would load from a disk, one invocation (its clock reading and its
  arguments) applied to a disk, and a sequence of invocations, each on the disk the one
  before left.
\<close>

definition stored :: "disk \<Rightarrow> task list" where
  "stored d = fst (loadTasks d)"

type_synonym invocation = "timestamp \<times> string list"

definition invoke :: "disk \<Rightarrow> invocation \<Rightarrow> disk" where
  "invoke d i = disk_after (main (fst i) (snd i) d)"

definition runAll :: "invocation list \<Rightarrow> disk \<Rightarrow> disk" where
  "runAll is d = foldl invoke d is"

section \<open>Properties of runs and of collections\<close>

text \<open>An event that is a call of \<open>fs.writeFileSync\<close>, and one that is a line on standard error.\<close>

definition isWrite :: "event \<Rightarrow> bool" where
  "isWrite e = (case e of WriteFile ts \<Rightarrow> True | _ \<Rightarrow> False)"

definition isStderr :: "event \<Rightarrow> bool" where
  "isStderr e = (case e of Stderr m \<Rightarrow> True | _ \<Rightarrow> False)"

text \<open>The test of \<open>getNextId\<close> for an id that counts.\<close>

definition validId :: "number \<Rightarrow> bool" where
  "validId n = (Number_isInteger n \<and> greaterThanZero n)"

text \<open>A task whose stored id is a JSON number, integral and positive; and that number.\<close>

definition positiveIntegerId :: "task \<Rightarrow> bool" where
  "positiveIntegerId t = (case id' t of JNumber q \<Rightarrow> q = of_int \<lfloor>q\<rfloor> \<and> 0 < q | _ \<Rightarrow> False)"

definition idOf :: "task \<Rightarrow> rat" where
  "idOf t = (case id' t of JNumber q \<Rightarrow> q | _ \<Rightarrow> 0)"

text \<open>
  What one run can do to the stored collection: nothing, append a task, replace the
  description or the status of the task at an index, remove the tasks of an id, and,
  when a write fails part-way, lose every task.
\<close>

datatype change =
    Same
  | Lost
  | Appended task
  | Redescribed nat string
  | Remarked nat string
  | Removed number

fun applyChange :: "timestamp \<Rightarrow> change \<Rightarrow> task list \<Rightarrow> task list" where
  "applyChange now Same ts = ts"
| "applyChange now Lost ts = []"
| "applyChange now (Appended t) ts = ts @ [t]"
| "applyChange now (Redescribed i desc) ts = ts[i := (ts ! i)\<lparr>description := desc, updatedAt := now\<rparr>]"
| "applyChange now (Remarked i st) ts = ts[i := (ts ! i)\<lparr>status := st, updatedAt := now\<rparr>]"
| "applyChange now (Removed n) ts = filter (\<lambda>t. \<not> sameId n t) ts"

definition admissible :: "timestamp \<Rightarrow> task list \<Rightarrow> change \<Rightarrow> bool" where
  "admissible now ts c =
     (case c of
        Same \<Rightarrow> True
      | Lost \<Rightarrow> True
      | Appended t \<Rightarrow> id' t = jsonNumber (getNextId ts) \<and> status t = ''todo''
                        \<and> createdAt t = now \<and> updatedAt t = now
      | Redescribed i desc \<Rightarrow> i < length ts
      | Remarked i st \<Rightarrow> i < length ts \<and> (st = ''in-progress'' \<or> st = ''done'')
      | Removed n \<Rightarrow> True)"

section \<open>Example disks\<close>

text \<open>No data file; the file after scenario 2 of the specification; a hand-edited file
  in which two tasks carry the id 2, one as a number and one as a string.\<close>

definition emptyDisk :: disk where
  "emptyDisk = \<lparr>dataFile = Absent, write_error = None\<rparr>"

definition twoTasks :: "task list" where
  "twoTasks =
     [\<lparr>id' = JNumber 1, name = ''Task A'', description = [], status = ''todo'',
        createdAt = 100, updatedAt = 100\<rparr>,
      \<lparr>id' = JNumber 2, name = ''Task B'', description = ''desc'', status = ''todo'',
        createdAt = 200, updatedAt = 200\<rparr>]"

definition twoTaskDisk :: disk where
  "twoTaskDisk = \<lparr>dataFile = Text False (Array twoTasks), write_error = None\<rparr>"

definition duplicateTasks :: "task list" where
  "duplicateTasks =
     [\<lparr>id' = JNumber 1, name = ''first'', description = [], status = ''todo'',
        createdAt = 100, updatedAt = 100\<rparr>,
      \<lparr>id' = JNumber 2, name = ''second'', description = [], status = ''todo'',
        createdAt = 200, updatedAt = 200\<rparr>,
      \<lparr>id' = JString ''2'', name = ''third'', description = [], status = ''todo'',
        createdAt = 300, updatedAt = 300\<rparr>]"

definition duplicateDisk :: disk where
  "duplicateDisk = \<lparr>dataFile = Text False (Array duplicateTasks), write_error = None\<rparr>"

text \<open>
  An empty file: \<open>raw.trim()\<close> is empty, and \<open>JSON.parse\<close> would reject the text. A
  file whose text is not JSON. The collection is followed by what \<open>savedThenConfirmed\<close>
  asks of a run: after the warnings of the load it calls \<open>writeFileSync\<close> once, prints
  one line on standard output, and the file then holds what was written.
\<close>

definition blankDisk :: disk where
  "blankDisk = \<lparr>dataFile = Text True (SyntaxError ''Unexpected end of JSON input''),
                 write_error = None\<rparr>"

definition corruptDisk :: disk where
  "corruptDisk = \<lparr>dataFile = Text False (SyntaxError ''Unexpected token o in JSON''),
                   write_error = None\<rparr>"

definition savedThenConfirmed :: "disk \<Rightarrow> outcome \<Rightarrow> bool" where
  "savedThenConfirmed d r =
     (let n = length (snd (loadTasks d))
      in take n (events r) = snd (loadTasks d)
       \<and> (case drop n (events r) of
            [WriteFile ts, Stdout m] \<Rightarrow> dataFile (disk_after r) = Text False (Array ts)
          | _ \<Rightarrow> False))"

text \<open>
  A collection whose ids are positive integers, increasing along the stored order; one
  whose ids are moreover at most \<open>n\<close>; and one whose time stamps are in order and not
  after the clock reading \<open>c\<close>.
\<close>

definition idsOrdered :: "task list \<Rightarrow> bool" where
  "idsOrdered ts = (list_all positiveIntegerId ts \<and> sorted_wrt (<) (map idOf ts))"

definition idsBelow :: "nat \<Rightarrow> task list \<Rightarrow> bool" where
  "idsBelow n ts = (idsOrdered ts \<and> list_all (\<lambda>t. idOf t \<le> of_nat n) ts)"

definition stampedBy :: "timestamp \<Rightarrow> task list \<Rightarrow> bool" where
  "stampedBy c ts = list_all (\<lambda>t. createdAt t \<le> updatedAt t \<and> updatedAt t \<le> c) ts"

section \<open>Basic facts\<close>

lemma roundHalfEven_int [simp]: "roundHalfEven (of_int k) = k"
  by (simp add: roundHalfEven_def)

lemma toDouble_int:
  assumes "\<bar>k\<bar> \<le> 2 ^ 53"
  shows "toDouble (of_int k) = Fin (of_int k)"
proof (cases "k = 0")
  case True
  then show ?thesis by (simp add: toDouble_def)
next
  case False
  define b where "b = bitlen \<bar>k\<bar>"
  have pos: "0 < \<bar>k\<bar>" using False by simp
  from bitlen_bounds [OF pos] have lo: "2 ^ nat (b - 1) \<le> \<bar>k\<bar>" by (simp add: b_def)
  have b1: "1 \<le> b" using pos bitlen_eq_zero_iff [of "\<bar>k\<bar>"] bitlen_nonneg [of "\<bar>k\<bar>"]
    by (simp add: b_def)
  from lo assms have p: "(2::int) ^ nat (b - 1) \<le> 2 ^ 53" by linarith
  have "nat (b - 1) \<le> 53"
  proof (rule power_le_imp_le_exp)
    show "(1::int) < 2" by simp
    show "(2::int) ^ nat (b - 1) \<le> 2 ^ 53" by (rule p)
  qed
  then have b54: "b \<le> 54" by simp
  have fl: "floorLog2 \<bar>of_int k\<bar> = b - 1"
  proof -
    have eq: "\<bar>of_int k :: rat\<bar> = of_int \<bar>k\<bar>" by simp
    have "1 \<le> \<bar>k\<bar>" using pos by simp
    then have "(1::rat) \<le> of_int \<bar>k\<bar>" by (simp only: of_int_1_le_iff)
    then show ?thesis unfolding eq floorLog2_def b_def by (simp only: if_True floor_of_int)
  qed
  show ?thesis
  proof (cases "b \<le> 53")
    case True
    define e where "e = nat (53 - b)"
    have qe: "max (b - 1 - 52) (- 1074) = - int e" using True b1 by (simp add: e_def)
    have "roundHalfEven (of_int (k * 2 ^ e)) = k * 2 ^ e" by (rule roundHalfEven_int)
    then have u: "roundHalfEven (of_int k * 2 ^ e) = k * 2 ^ e" by simp
    show ?thesis
    proof (cases "e = 0")
      case True
      then show ?thesis
        unfolding toDouble_def fl qe using False by (simp add: Let_def)
    next
      case e: False
      then show ?thesis
        unfolding toDouble_def fl qe using False 
        by (simp add: Let_def u)
    qed
  next
    case b: False
    with b54 have b': "b = 54" by simp
    with lo assms have k: "\<bar>k\<bar> = 2 ^ 53" by simp
    then have "even \<bar>k\<bar>" by simp
    then have "even k" by simp
    then have k2: "k = 2 * (k div 2)" by simp
    have "(of_int k :: rat) = 2 * of_int (k div 2)" by (subst k2) (simp only: of_int_mult of_int_numeral)
    then have u: "(of_int k :: rat) / 2 = of_int (k div 2)" by simp
    have m: "\<bar>k div 2\<bar> < 2 ^ 53" using k by simp
    show ?thesis
      unfolding toDouble_def fl b' using False k2 m
      by (simp add: Let_def u del: of_int_mult)
  qed
qed

lemma toDouble_not_NaN: "toDouble x \<noteq> NaN"
  by (simp add: toDouble_def Let_def)

lemma saveAndLog_ok:
  "write_error d = None \<Longrightarrow>
   saveAndLog evs ts msg d =
     finish (evs @ [WriteFile ts, Stdout msg]) (d\<lparr>dataFile := Text False (Array ts)\<rparr>)"
  by (simp add: saveAndLog_def saveTasks_def)

lemma saveAndLog_fail:
  "write_error d = Some (e, l) \<Longrightarrow>
   saveAndLog evs ts msg d =
     \<lparr>events = evs @ [WriteFile ts, Stderr (WriteFailed e)], exit_code = 1,
        disk_after = d\<lparr>dataFile := afterFailure l ts (dataFile d)\<rparr>\<rparr>"
  by (simp add: saveAndLog_def saveTasks_def)

lemma stored_saved: "stored (d\<lparr>dataFile := Text False (Array ts)\<rparr>) = ts"
  by (simp add: stored_def loadTasks_def)

lemma stored_saveAndLog:
  "write_error d = None \<Longrightarrow> stored (disk_after (saveAndLog evs ts msg d)) = ts"
  by (simp add: saveAndLog_ok stored_saved finish_def)

lemma stored_afterFailure:
  "stored (d\<lparr>dataFile := afterFailure l ts (dataFile d)\<rparr>) =
     (case l of Untouched \<Rightarrow> stored d | Truncated blank err \<Rightarrow> [] | Complete \<Rightarrow> ts)"
  by (cases l) (simp_all add: afterFailure_def stored_def loadTasks_def)

lemma exit_code_saveAndLog:
  "exit_code (saveAndLog evs ts msg d) = (if write_error d = None then 0 else 1)"
proof (cases "write_error d")
  case None
  then show ?thesis by (simp add: saveAndLog_ok finish_def)
next
  case (Some f)
  then obtain e l where "write_error d = Some (e, l)" by (cases f) auto
  then show ?thesis by (simp add: saveAndLog_fail)
qed

lemma loadTasks_stored: "loadTasks d = (stored d, snd (loadTasks d))"
  by (simp add: stored_def)

lemma findIndex_ge: "- 1 \<le> findIndex P xs"
  by (induction xs) (auto simp: Let_def)

lemma findIndex_none: "findIndex P xs = - 1 \<longleftrightarrow> (\<forall>x\<in>set xs. \<not> P x)"
proof (induction xs)
  case Nil
  show ?case by simp
next
  case (Cons x xs)
  have "findIndex P xs + 1 \<noteq> - 1" using findIndex_ge [of P xs] by arith
  with Cons show ?case by (auto simp: Let_def)
qed

lemma findIndex_found:
  assumes "findIndex P xs \<noteq> - 1"
  shows "0 \<le> findIndex P xs" and "nat (findIndex P xs) < length xs"
    and "P (xs ! nat (findIndex P xs))"
    and "\<forall>j < nat (findIndex P xs). \<not> P (xs ! j)"
  using assms
proof (induction xs)
  case Nil
  { case 1 then show ?case by simp }
  { case 2 then show ?case by simp }
  { case 3 then show ?case by simp }
  { case 4 then show ?case by simp }
next
  case (Cons x xs)
  { case 1 then show ?case using findIndex_ge [of P "x # xs"] by arith }
  { case 2 
    then show ?case using Cons(2) findIndex_ge [of P xs] 
      by (auto simp: Let_def nat_add_distrib split: if_splits) }
  { case 3 
    then show ?case using Cons(3) findIndex_ge [of P xs] 
      by (auto simp: Let_def nat_add_distrib split: if_splits) }
  { case 4 
    then show ?case using Cons(4) findIndex_ge [of P xs] 
      by (auto simp: Let_def nat_add_distrib less_Suc_eq_0_disj split: if_splits) }
qed

lemma length_filter_same: "length (filter P xs) = length xs \<longleftrightarrow> (\<forall>x\<in>set xs. P x)"
  by (metis filter_True length_filter_less nat_neq_iff filter_id_conv)

lemma sameId_NaN [simp]: "\<not> sameId NaN t"
  by (simp add: sameId_def strictEquals_def)

lemma cmdDelete_Cons:
  "cmdDelete (a # xs) d =
     (if parseInt a = NaN then exit1 [Stderr InvalidId] d
      else if \<forall>t\<in>set (stored d). \<not> sameId (parseInt a) t
        then exit1 (snd (loadTasks d) @ [Stderr (NotFound (parseInt a))]) d
      else saveAndLog (snd (loadTasks d)) (filter (\<lambda>t. \<not> sameId (parseInt a) t) (stored d))
             (Deleted (parseInt a)) d)"
  by (simp add: cmdDelete_def Let_def Number_isNaN_def stored_def split_beta length_filter_same)

lemma cmdUpdate_Cons:
  "cmdUpdate now (a # x # xs) d =
     (if parseInt a = NaN then exit1 [Stderr InvalidId] d
      else if findIndex (sameId (parseInt a)) (stored d) = - 1
        then exit1 (snd (loadTasks d) @ [Stderr (NotFound (parseInt a))]) d
      else saveAndLog (snd (loadTasks d))
             ((stored d)[nat (findIndex (sameId (parseInt a)) (stored d)) :=
                (stored d ! nat (findIndex (sameId (parseInt a)) (stored d)))
                  \<lparr>description := join '' '' (x # xs), updatedAt := now\<rparr>])
             (Updated (parseInt a)) d)"
  by (simp add: cmdUpdate_def Let_def Number_isNaN_def stored_def split_beta)

lemma cmdUpdate_short: "length args < 2 \<Longrightarrow> cmdUpdate now args d = exit1 [Stderr UsageUpdate] d"
  by (simp add: cmdUpdate_def)

lemma cmdMark_Cons:
  "cmdMark now (a # xs) st d =
     (if parseInt a = NaN then exit1 [Stderr InvalidId] d
      else if findIndex (sameId (parseInt a)) (stored d) = - 1
        then exit1 (snd (loadTasks d) @ [Stderr (NotFound (parseInt a))]) d
      else saveAndLog (snd (loadTasks d))
             ((stored d)[nat (findIndex (sameId (parseInt a)) (stored d)) :=
                (stored d ! nat (findIndex (sameId (parseInt a)) (stored d)))
                  \<lparr>status := st, updatedAt := now\<rparr>])
             (Marked (parseInt a) st) d)"
  by (simp add: cmdMark_def Let_def Number_isNaN_def stored_def split_beta)

lemma cmdAdd_Cons:
  "cmdAdd now (a # xs) d =
     saveAndLog (snd (loadTasks d))
       (stored d @ [\<lparr>id' = jsonNumber (getNextId (stored d)), name = a,
                     description = (if xs = [] then [] else join '' '' xs),
                     status = ''todo'', createdAt = now, updatedAt = now\<rparr>])
       (Added (getNextId (stored d))) d"
  by (simp add: cmdAdd_def Let_def stored_def split_beta)

lemma cmdList_unchanged: "disk_after (cmdList args d) = d"
  by (simp add: cmdList_def Let_def exit1_def finish_def split_beta)

lemma loadTasks_warnings: "e \<in> set (snd (loadTasks d)) \<Longrightarrow> \<exists>m. e = Stderr (LoadWarning m)"
  by (auto simp: loadTasks_def split: data_file.splits parsed.splits if_splits)

lemma validId_Fin: "validId n \<longleftrightarrow> (\<exists>k::int. 0 < k \<and> n = Fin (of_int k))"
proof
  assume "validId n"
  then obtain q where q: "n = Fin q" "q = of_int \<lfloor>q\<rfloor>" "0 < q"
    by (auto simp: validId_def Number_isInteger_def greaterThanZero_def split: number.splits)
  then have "0 < \<lfloor>q\<rfloor>" by linarith
  with q show "\<exists>k::int. 0 < k \<and> n = Fin (of_int k)" by metis
next
  assume "\<exists>k::int. 0 < k \<and> n = Fin (of_int k)"
  then show "validId n"
    by (auto simp: validId_def Number_isInteger_def greaterThanZero_def)
qed

lemma foldl_max2_Fin:
  "\<forall>n\<in>set ns. \<exists>k::int. n = Fin (of_int k) \<Longrightarrow>
   \<exists>m::int. foldl max2 (Fin (of_int a)) ns = Fin (of_int m) \<and> a \<le> m
      \<and> (\<forall>k. Fin (of_int k) \<in> set ns \<longrightarrow> k \<le> m)
      \<and> (m = a \<or> Fin (of_int m) \<in> set ns)"
proof (induction ns arbitrary: a)
  case Nil
  then show ?case by simp
next
  case (Cons n ns)
  then obtain k :: int where k: "n = Fin (of_int k)" by auto
  have step: "max2 (Fin (of_int a)) n = Fin (of_int (max a k))"
    by (simp add: max2_def k max_def)
  from Cons.prems have "\<forall>n\<in>set ns. \<exists>k::int. n = Fin (of_int k)" by simp
  from Cons.IH [OF this, of "max a k"]
  obtain m :: int where m: "foldl max2 (Fin (of_int (max a k))) ns = Fin (of_int m)"
      "max a k \<le> m" "\<forall>j. Fin (of_int j) \<in> set ns \<longrightarrow> j \<le> m"
      "m = max a k \<or> Fin (of_int m) \<in> set ns"
    by blast
  show ?case
  proof (intro exI [of _ m] conjI allI impI)
    show "foldl max2 (Fin (of_int a)) (n # ns) = Fin (of_int m)" using m(1) step by simp
    show "a \<le> m" using m(2) by simp
    show "j \<le> m" if "Fin (of_int j) \<in> set (n # ns)" for j
      using that m(2,3) k by auto
    show "m = a \<or> Fin (of_int m) \<in> set (n # ns)" using m(4) k by (auto simp: max_def split: if_splits)
  qed
qed

text \<open>What getNextId returns: a positive integer above every valid id.\<close>

lemma getNextId_fresh:
  assumes small: "\<forall>t\<in>set ts. \<forall>k::int. Number (id' t) = Fin (of_int k) \<longrightarrow> k < 2 ^ 53"
  shows "\<exists>m::int. 0 < m \<and> getNextId ts = Fin (of_int m)
     \<and> (\<forall>t\<in>set ts. \<forall>k::int. 0 < k \<and> Number (id' t) = Fin (of_int k) \<longrightarrow> k < m)
     \<and> (m = 1 \<or> (\<exists>t\<in>set ts. Number (id' t) = Fin (of_int (m - 1))))"
proof -
  define ids where "ids = filter validId (map (\<lambda>t. Number (id' t)) ts)"
  have g: "getNextId ts = (if ids = [] then Fin 1 else plusOne (Math_max ids))"
    by (simp add: getNextId_def ids_def validId_def [abs_def] Let_def)
  have all: "\<forall>n\<in>set ids. \<exists>k::int. 0 < k \<and> n = Fin (of_int k)"
    by (auto simp: ids_def validId_Fin)
  show ?thesis
  proof (cases ids)
    case Nil
    have "\<not> (0 < k \<and> Number (id' t) = Fin (of_int k))" if "t \<in> set ts" for t and k :: int
    proof
      assume "0 < k \<and> Number (id' t) = Fin (of_int k)"
      then have "validId (Number (id' t))" by (auto simp: validId_Fin)
      with that have "Number (id' t) \<in> set ids" by (simp add: ids_def)
      with Nil show False by simp
    qed
    with Nil g show ?thesis by (intro exI [of _ 1]) auto
  next
    case (Cons n ns)
    from all Cons obtain k0 :: int where k0: "0 < k0" "n = Fin (of_int k0)" by auto
    from all Cons have "\<forall>n\<in>set ns. \<exists>k::int. n = Fin (of_int k)" by auto
    from foldl_max2_Fin [OF this, of k0]
    obtain m :: int where m: "foldl max2 (Fin (of_int k0)) ns = Fin (of_int m)" "k0 \<le> m"
      "\<forall>k. Fin (of_int k) \<in> set ns \<longrightarrow> k \<le> m" "m = k0 \<or> Fin (of_int m) \<in> set ns"
      by blast
    have first: "max2 NegInf (Fin (of_int k0)) = Fin (of_int k0)" by (simp add: max2_def)
    have mm: "Math_max ids = Fin (of_int m)"
      using m(1) by (simp add: Math_max_def Cons first k0)
    have in_ids: "Fin (of_int m) \<in> set ids" using m(4) k0 Cons by auto
    have bound: "k \<le> m" if "Fin (of_int k) \<in> set ids" for k
      using that m(2,3) k0 Cons by auto
    from in_ids have held: "\<exists>t\<in>set ts. Number (id' t) = Fin (of_int m)" by (auto simp: ids_def)
    with small have "m < 2 ^ 53" by blast
    with k0(1) m(2) have "\<bar>m + 1\<bar> \<le> 2 ^ 53" by simp
    from toDouble_int [OF this] have td: "toDouble (of_int m + 1) = Fin (of_int m + 1)" by simp
    show ?thesis
    proof (intro exI [of _ "m + 1"] conjI ballI allI impI)
      show "0 < m + 1" using k0 m(2) by simp
      show "getNextId ts = Fin (of_int (m + 1))" using g mm Cons by (simp add: plusOne_def td)
      show "k < m + 1" if "t \<in> set ts" "0 < k \<and> Number (id' t) = Fin (of_int k)" for t k
      proof -
        from that have "validId (Number (id' t))" by (auto simp: validId_Fin)
        with that(1) have "Number (id' t) \<in> set ids" by (simp add: ids_def)
        with that(2) have "Fin (of_int k) \<in> set ids" by simp
        from bound [OF this] show ?thesis by simp
      qed
      from held show "m + 1 = 1 \<or> (\<exists>t\<in>set ts. Number (id' t) = Fin (of_int (m + 1 - 1)))" by simp
    qed
  qed
qed

lemma saveAndLog_change:
  assumes "admissible now (stored d) c" and "applyChange now c (stored d) = ts"
  shows "\<exists>c'. admissible now (stored d) c'
           \<and> stored (disk_after (saveAndLog evs ts msg d)) = applyChange now c' (stored d)"
proof (cases "write_error d")
  case None
  then have "stored (disk_after (saveAndLog evs ts msg d)) = applyChange now c (stored d)"
    by (simp add: stored_saveAndLog assms(2))
  with assms(1) show ?thesis by blast
next
  case (Some f)
  then obtain e l where w: "write_error d = Some (e, l)" by (cases f) auto
  have after: "stored (disk_after (saveAndLog evs ts msg d)) =
      (case l of Untouched \<Rightarrow> stored d | Truncated blank err \<Rightarrow> [] | Complete \<Rightarrow> ts)"
    by (simp add: saveAndLog_fail [OF w] stored_afterFailure)
  show ?thesis
  proof (cases l)
    case Untouched
    with after have "stored (disk_after (saveAndLog evs ts msg d)) = applyChange now Same (stored d)"
      by simp
    moreover have "admissible now (stored d) Same" by (simp add: admissible_def)
    ultimately show ?thesis by blast
  next
    case (Truncated blank err)
    with after have "stored (disk_after (saveAndLog evs ts msg d)) = applyChange now Lost (stored d)"
      by simp
    moreover have "admissible now (stored d) Lost" by (simp add: admissible_def)
    ultimately show ?thesis by blast
  next
    case Complete
    with after have "stored (disk_after (saveAndLog evs ts msg d)) = applyChange now c (stored d)"
      by (simp add: assms(2))
    with assms(1) show ?thesis by blast
  qed
qed

lemma cmdAdd_change:
  "\<exists>c. admissible now (stored d) c \<and> stored (disk_after (cmdAdd now args d)) = applyChange now c (stored d)"
proof (cases args)
  case Nil
  then have "stored (disk_after (cmdAdd now args d)) = applyChange now Same (stored d)"
    by (simp add: cmdAdd_def exit1_def)
  moreover have "admissible now (stored d) Same" by (simp add: admissible_def)
  ultimately show ?thesis by blast
next
  case (Cons a xs)
  let ?t = "\<lparr>id' = jsonNumber (getNextId (stored d)), name = a,
                     description = (if xs = [] then [] else join '' '' xs),
                     status = ''todo'', createdAt = now, updatedAt = now\<rparr>"
  have "admissible now (stored d) (Appended ?t)" by (simp add: admissible_def)
  moreover have "applyChange now (Appended ?t) (stored d) = stored d @ [?t]" by simp
  ultimately show ?thesis unfolding Cons cmdAdd_Cons by (rule saveAndLog_change)
qed

section \<open>Commands on an id that no stored task has\<close>

lemma findIndex_sameId_none:
  "(\<forall>t\<in>set ts. \<not> sameId n t) \<Longrightarrow> findIndex (sameId n) ts = - 1"
  by (simp add: findIndex_none)

lemma warnings_no_write: "list_all (\<lambda>e. isStderr e \<and> \<not> isWrite e) (snd (loadTasks d))"
  by (auto simp: list_all_iff isStderr_def isWrite_def dest!: loadTasks_warnings)

text \<open>
  C4. When no stored task has the id of the first argument, \<open>update\<close>, \<open>delete\<close>,
  \<open>mark-in-progress\<close> and \<open>mark-done\<close> exit with status 1 and leave the disk as it
  was; everything they print goes to standard error, something is printed, and
  \<open>writeFileSync\<close> is never called. With an id that parses (and, for \<open>update\<close>, a
  description) the last line is the not-found error.
\<close>

theorem unmatched_id_aborts:
  assumes "\<forall>t\<in>set (stored d). \<not> sameId (parseInt a) t"
  shows "exit_code (cmdUpdate now (a # xs) d) = 1
       \<and> disk_after (cmdUpdate now (a # xs) d) = d
       \<and> events (cmdUpdate now (a # xs) d) \<noteq> []
       \<and> list_all (\<lambda>e. isStderr e \<and> \<not> isWrite e) (events (cmdUpdate now (a # xs) d))
       \<and> exit_code (cmdDelete (a # xs) d) = 1
       \<and> disk_after (cmdDelete (a # xs) d) = d
       \<and> events (cmdDelete (a # xs) d) \<noteq> []
       \<and> list_all (\<lambda>e. isStderr e \<and> \<not> isWrite e) (events (cmdDelete (a # xs) d))
       \<and> exit_code (cmdMark now (a # xs) st d) = 1
       \<and> disk_after (cmdMark now (a # xs) st d) = d
       \<and> events (cmdMark now (a # xs) st d) \<noteq> []
       \<and> list_all (\<lambda>e. isStderr e \<and> \<not> isWrite e) (events (cmdMark now (a # xs) st d))
       \<and> (parseInt a \<noteq> NaN \<longrightarrow>
            events (cmdDelete (a # xs) d) = snd (loadTasks d) @ [Stderr (NotFound (parseInt a))]
          \<and> events (cmdMark now (a # xs) st d) = snd (loadTasks d) @ [Stderr (NotFound (parseInt a))]
          \<and> (xs \<noteq> [] \<longrightarrow>
               events (cmdUpdate now (a # xs) d) = snd (loadTasks d) @ [Stderr (NotFound (parseInt a))]))"
proof -
  note none = findIndex_sameId_none [OF assms]
  have w: "list_all (\<lambda>e. isStderr e \<and> \<not> isWrite e) (snd (loadTasks d))"
    by (rule warnings_no_write)
  have del: "cmdDelete (a # xs) d =
      (if parseInt a = NaN then exit1 [Stderr InvalidId] d
       else exit1 (snd (loadTasks d) @ [Stderr (NotFound (parseInt a))]) d)"
    using assms by (simp add: cmdDelete_Cons)
  have mark: "cmdMark now (a # xs) st d =
      (if parseInt a = NaN then exit1 [Stderr InvalidId] d
       else exit1 (snd (loadTasks d) @ [Stderr (NotFound (parseInt a))]) d)"
    using none by (simp add: cmdMark_Cons)
  have upd: "cmdUpdate now (a # xs) d =
      (if xs = [] then exit1 [Stderr UsageUpdate] d
       else if parseInt a = NaN then exit1 [Stderr InvalidId] d
       else exit1 (snd (loadTasks d) @ [Stderr (NotFound (parseInt a))]) d)"
  proof (cases xs)
    case Nil
    then show ?thesis by (simp add: cmdUpdate_short)
  next
    case (Cons x xs')
    then show ?thesis using none by (simp add: cmdUpdate_Cons)
  qed
  show ?thesis
    unfolding del mark upd using w
    by (simp add: exit1_def isStderr_def isWrite_def)
qed

theorem unmatched_id_aborts_witness:
  "list_all (\<lambda>t. \<not> sameId (parseInt ''99'') t) (stored twoTaskDisk)
   \<and> exit_code (cmdMark 500 [''99''] ''done'' twoTaskDisk) = 1
   \<and> disk_after (cmdMark 500 [''99''] ''done'' twoTaskDisk) = twoTaskDisk
   \<and> events (cmdMark 500 [''99''] ''done'' twoTaskDisk) = [Stderr (NotFound (Fin 99))]"
proof -
  have h: "\<forall>t\<in>set (stored twoTaskDisk). \<not> sameId (parseInt ''99'') t"
    by code_simp
  have p: "parseInt ''99'' = Fin 99" by code_simp
  have l: "snd (loadTasks twoTaskDisk) = []" by code_simp
  show ?thesis
    using h unmatched_id_aborts [OF h, of 500 "[]" "''done''"] by (simp add: p l list_all_iff)
qed

section \<open>What \<open>update\<close> changes\<close>


lemma sameId_update [simp]:
  "sameId n (t\<lparr>description := desc, updatedAt := now\<rparr>) = sameId n t"
  "sameId n (t\<lparr>status := st, updatedAt := now\<rparr>) = sameId n t"
  by (simp_all add: sameId_def)


text \<open>
  C6. When a stored task has the id of the first argument and the write succeeds,
  \<open>update\<close> exits with 0 and acts on the first such task (index \<open>i\<close>, with no task of
  that id before it): the stored collection is the old one with that task's description
  replaced by the joined remaining arguments and its updatedAt by the clock reading. So
  the collection keeps its length, every task at another index is what it was, and the
  task itself keeps its id, name, status and createdAt.
\<close>

theorem update_frame:
  assumes "\<exists>t\<in>set (stored d). sameId (parseInt a) t" and "write_error d = None"
  shows "let ts = stored d;
             i = nat (findIndex (sameId (parseInt a)) ts);
             r = cmdUpdate now (a # x # xs) d;
             ts' = stored (disk_after r)
         in i < length ts \<and> sameId (parseInt a) (ts ! i)
          \<and> (\<forall>j<i. \<not> sameId (parseInt a) (ts ! j))
          \<and> exit_code r = 0
          \<and> ts' = ts[i := (ts ! i)\<lparr>description := join '' '' (x # xs), updatedAt := now\<rparr>]
          \<and> length ts' = length ts
          \<and> (\<forall>j<length ts. j \<noteq> i \<longrightarrow> ts' ! j = ts ! j)
          \<and> id' (ts' ! i) = id' (ts ! i) \<and> name (ts' ! i) = name (ts ! i)
          \<and> status (ts' ! i) = status (ts ! i) \<and> createdAt (ts' ! i) = createdAt (ts ! i)
          \<and> description (ts' ! i) = join '' '' (x # xs)
          \<and> updatedAt (ts' ! i) = now"
proof -
  let ?ts = "stored d"
  let ?i = "nat (findIndex (sameId (parseInt a)) ?ts)"
  from assms(1) have f: "findIndex (sameId (parseInt a)) ?ts \<noteq> - 1"
    by (simp add: findIndex_none)
  from findIndex_found [OF f]
  have i: "?i < length ?ts" and m: "sameId (parseInt a) (?ts ! ?i)"
    and first: "\<forall>j<?i. \<not> sameId (parseInt a) (?ts ! j)" by blast+
  from m have nn: "parseInt a \<noteq> NaN" by auto
  have r: "cmdUpdate now (a # x # xs) d =
      saveAndLog (snd (loadTasks d))
        (?ts[?i := (?ts ! ?i)\<lparr>description := join '' '' (x # xs), updatedAt := now\<rparr>])
        (Updated (parseInt a)) d"
    using f nn by (simp add: cmdUpdate_Cons)
  have s: "stored (disk_after (cmdUpdate now (a # x # xs) d)) =
      ?ts[?i := (?ts ! ?i)\<lparr>description := join '' '' (x # xs), updatedAt := now\<rparr>]"
    unfolding r by (rule stored_saveAndLog [OF assms(2)])
  have e: "exit_code (cmdUpdate now (a # x # xs) d) = 0"
    unfolding r using assms(2) by (simp add: exit_code_saveAndLog)
  show ?thesis
    unfolding Let_def s e using i m first by simp
qed

theorem update_frame_witness:
  "list_ex (sameId (parseInt ''2'')) (stored twoTaskDisk)
   \<and> write_error twoTaskDisk = None
   \<and> stored (disk_after (cmdUpdate 900 [''2'', ''new'', ''desc''] twoTaskDisk)) =
       [twoTasks ! 0, (twoTasks ! 1)\<lparr>description := ''new desc'', updatedAt := 900\<rparr>]"
proof -
  have h: "\<exists>t\<in>set (stored twoTaskDisk). sameId (parseInt ''2'') t" by code_simp
  have w: "write_error twoTaskDisk = None" by code_simp
  have i: "nat (findIndex (sameId (parseInt ''2'')) twoTasks) = 1" by code_simp
  have ts: "stored twoTaskDisk = twoTasks" by code_simp
  have j: "join '' '' [''new'', ''desc''] = ''new desc''" by simp
  have l: "twoTasks[Suc 0 := t] = [twoTasks ! 0, t]" for t by (simp add: twoTasks_def)
  from update_frame [OF h w, of 900 "''new''" "[''desc'']"]
  have "stored (disk_after (cmdUpdate 900 [''2'', ''new'', ''desc''] twoTaskDisk)) =
       twoTasks[1 := (twoTasks ! 1)\<lparr>description := ''new desc'', updatedAt := 900\<rparr>]"
    by (simp add: Let_def ts i j)
  with h w show ?thesis by (simp add: l list_ex_iff)
qed

section \<open>\<open>mark-done\<close>, twice\<close>




section \<open>Several tasks with the same id\<close>

text \<open>
  C10. When two stored tasks (at indices \<open>i < j\<close>) both have the id of the argument
  after coercion, one \<open>delete\<close> stores the collection without any task of that id, while
  \<open>update\<close> and the marking commands change only the task at the first index \<open>k\<close> with
  that id and leave the task at \<open>j\<close> as it was.
\<close>

theorem duplicate_ids:
  assumes "write_error d = None"
      and "i < j" and "j < length (stored d)"
      and "sameId (parseInt a) (stored d ! i)" and "sameId (parseInt a) (stored d ! j)"
  shows "let ts = stored d; n = parseInt a;
             k = nat (findIndex (sameId n) ts);
             del = stored (disk_after (cmdDelete (a # xs) d));
             upd = stored (disk_after (cmdUpdate now (a # x # xs) d));
             mrk = stored (disk_after (cmdMark now (a # xs) st d))
         in del = filter (\<lambda>t. \<not> sameId n t) ts
          \<and> (\<forall>t\<in>set del. \<not> sameId n t) \<and> ts ! i \<notin> set del \<and> ts ! j \<notin> set del
          \<and> k \<le> i \<and> sameId n (ts ! k) \<and> (\<forall>m<k. \<not> sameId n (ts ! m))
          \<and> upd = ts[k := (ts ! k)\<lparr>description := join '' '' (x # xs), updatedAt := now\<rparr>]
          \<and> upd ! j = ts ! j
          \<and> mrk = ts[k := (ts ! k)\<lparr>status := st, updatedAt := now\<rparr>]
          \<and> mrk ! j = ts ! j"
proof -
  let ?n = "parseInt a"
  let ?ts = "stored d"
  let ?k = "nat (findIndex (sameId ?n) ?ts)"
  have i: "i < length ?ts" using assms(2,3) by simp
  have ex: "\<not> (\<forall>t\<in>set ?ts. \<not> sameId ?n t)"
    using assms(4) i nth_mem by blast
  then have f: "findIndex (sameId ?n) ?ts \<noteq> - 1" by (simp add: findIndex_none)
  from findIndex_found [OF f]
  have k: "?k < length ?ts" and m: "sameId ?n (?ts ! ?k)"
    and first: "\<forall>m<?k. \<not> sameId ?n (?ts ! m)" by blast+
  have ki: "?k \<le> i" using first assms(4) by (meson not_le_imp_less)
  from m have nn: "?n \<noteq> NaN" by auto
  from ex have ex': "(\<forall>t\<in>set ?ts. \<not> sameId ?n t) = False" by simp
  have del: "stored (disk_after (cmdDelete (a # xs) d)) = filter (\<lambda>t. \<not> sameId ?n t) ?ts"
    using nn assms(1) by (simp add: cmdDelete_Cons ex' stored_saveAndLog)
  have upd: "stored (disk_after (cmdUpdate now (a # x # xs) d)) =
      ?ts[?k := (?ts ! ?k)\<lparr>description := join '' '' (x # xs), updatedAt := now\<rparr>]"
    using f nn assms(1) by (simp add: cmdUpdate_Cons stored_saveAndLog)
  have mrk: "stored (disk_after (cmdMark now (a # xs) st d)) =
      ?ts[?k := (?ts ! ?k)\<lparr>status := st, updatedAt := now\<rparr>]"
    using f nn assms(1) by (simp add: cmdMark_Cons stored_saveAndLog)
  have kj: "?k \<noteq> j" using ki assms(2) by simp
  show ?thesis
    unfolding Let_def del upd mrk
    using ki m first kj assms(3,4,5) by simp
qed

theorem duplicate_ids_witness:
  "write_error duplicateDisk = None \<and> (1::nat) < 2 \<and> 2 < length (stored duplicateDisk)
   \<and> sameId (parseInt ''2'') (stored duplicateDisk ! 1)
   \<and> sameId (parseInt ''2'') (stored duplicateDisk ! 2)
   \<and> stored (disk_after (cmdDelete [''2''] duplicateDisk)) = [duplicateTasks ! 0]
   \<and> stored (disk_after (cmdMark 900 [''2''] ''done'' duplicateDisk)) =
       [duplicateTasks ! 0, (duplicateTasks ! 1)\<lparr>status := ''done'', updatedAt := 900\<rparr>,
        duplicateTasks ! 2]"
proof -
  have w: "write_error duplicateDisk = None" by code_simp
  have l: "2 < length (stored duplicateDisk)" by code_simp
  have a: "sameId (parseInt ''2'') (stored duplicateDisk ! 1)" by code_simp
  have b: "sameId (parseInt ''2'') (stored duplicateDisk ! 2)" by code_simp
  have k: "nat (findIndex (sameId (parseInt ''2'')) duplicateTasks) = 1" by code_simp
  have ts: "stored duplicateDisk = duplicateTasks" by code_simp
  have fl: "filter (\<lambda>t. \<not> sameId (parseInt ''2'') t) duplicateTasks = [duplicateTasks ! 0]"
    by code_simp
  have dl: "length duplicateTasks = 3" by code_simp
  have "(1::nat) < 2" by simp
  from duplicate_ids [OF w this l a b, where xs = "[]" and now = 900 and x = "''x''" and st = "''done''"]
  have "stored (disk_after (cmdDelete [''2''] duplicateDisk)) = [duplicateTasks ! 0]"
    and "stored (disk_after (cmdMark 900 [''2''] ''done'' duplicateDisk)) =
       duplicateTasks[1 := (duplicateTasks ! 1)\<lparr>status := ''done'', updatedAt := 900\<rparr>]"
    by (simp_all add: Let_def k ts fl)
  moreover have "duplicateTasks[1 := t] = [duplicateTasks ! 0, t, duplicateTasks ! 2]" for t
    by (simp add: duplicateTasks_def)
  ultimately show ?thesis using w l a b by simp
qed

section \<open>Which commands save\<close>

lemma saveAndLog_confirmed:
  "exit_code (saveAndLog (snd (loadTasks d)) ts m d) = 0 \<Longrightarrow>
   savedThenConfirmed d (saveAndLog (snd (loadTasks d)) ts m d)"
proof -
  assume "exit_code (saveAndLog (snd (loadTasks d)) ts m d) = 0"
  then have "write_error d = None" by (simp add: exit_code_saveAndLog split: if_splits)
  then show ?thesis by (simp add: saveAndLog_ok savedThenConfirmed_def finish_def)
qed

lemma exit1_code [simp]: "exit_code (exit1 evs d) = 1"
  by (simp add: exit1_def)

lemma cmdAdd_confirmed:
  "exit_code (cmdAdd now args d) = 0 \<Longrightarrow> savedThenConfirmed d (cmdAdd now args d)"
proof (cases args)
  case Nil
  assume "exit_code (cmdAdd now args d) = 0"
  with Nil show ?thesis by (simp add: cmdAdd_def)
next
  case (Cons a xs)
  assume "exit_code (cmdAdd now args d) = 0"
  then show ?thesis unfolding Cons cmdAdd_Cons by (rule saveAndLog_confirmed)
qed

lemma cmdDelete_confirmed:
  "exit_code (cmdDelete args d) = 0 \<Longrightarrow> savedThenConfirmed d (cmdDelete args d)"
proof (cases args)
  case Nil
  assume "exit_code (cmdDelete args d) = 0"
  with Nil show ?thesis by (simp add: cmdDelete_def)
next
  case (Cons a xs)
  assume "exit_code (cmdDelete args d) = 0"
  then show ?thesis unfolding Cons cmdDelete_Cons
    by (auto split: if_splits intro: saveAndLog_confirmed)
qed

lemma cmdMark_confirmed:
  "exit_code (cmdMark now args st d) = 0 \<Longrightarrow> savedThenConfirmed d (cmdMark now args st d)"
proof (cases args)
  case Nil
  assume "exit_code (cmdMark now args st d) = 0"
  with Nil show ?thesis by (simp add: cmdMark_def)
next
  case (Cons a xs)
  assume "exit_code (cmdMark now args st d) = 0"
  then show ?thesis unfolding Cons cmdMark_Cons
    by (auto split: if_splits intro: saveAndLog_confirmed)
qed

lemma cmdUpdate_confirmed:
  "exit_code (cmdUpdate now args d) = 0 \<Longrightarrow> savedThenConfirmed d (cmdUpdate now args d)"
proof (cases "length args < 2")
  case True
  assume "exit_code (cmdUpdate now args d) = 0"
  with True show ?thesis by (simp add: cmdUpdate_short)
next
  case False
  then obtain a x xs where args: "args = a # x # xs"
    by (cases args; cases "tl args") auto
  assume "exit_code (cmdUpdate now args d) = 0"
  then show ?thesis unfolding args cmdUpdate_Cons
    by (auto split: if_splits intro: saveAndLog_confirmed)
qed

lemma cmdList_no_write: "\<not> list_ex isWrite (events (cmdList args d))"
proof -
  have w: "\<not> list_ex isWrite (snd (loadTasks d))"
    using warnings_no_write [of d] by (auto simp: list_all_iff list_ex_iff)
  have p: "\<not> list_ex isWrite (map printTask ts)" for ts
    by (simp add: list_ex_iff printTask_def isWrite_def)
  show ?thesis
    using w p by (simp add: cmdList_def Let_def exit1_def finish_def split_beta isWrite_def)
qed

text \<open>
  C2, as stated, fails: \<open>list\<close> on a disk without a data file ends normally without a
  call of \<open>writeFileSync\<close>, and there is still no data file afterwards.
\<close>

theorem list_does_not_save:
  "\<not> list_ex isWrite (events (main 900 [''list''] emptyDisk))
   \<and> dataFile (disk_after (main 900 [''list''] emptyDisk)) = Absent
   \<and> exit_code (main 900 [''list''] emptyDisk) = 0"
  by code_simp

text \<open>
  C2, amended. \<open>list\<close> never calls \<open>writeFileSync\<close> and leaves the disk as it was. Each
  of \<open>add\<close>, \<open>update\<close>, \<open>delete\<close> and the marking commands, when it exits with 0, has
  loaded the collection, then written it once, then printed its confirmation, and the
  file holds what was written.
\<close>

theorem writers_save_list_does_not:
  "\<not> list_ex isWrite (events (cmdList args d)) \<and> disk_after (cmdList args d) = d
   \<and> (exit_code (cmdAdd now args d) = 0 \<longrightarrow> savedThenConfirmed d (cmdAdd now args d))
   \<and> (exit_code (cmdUpdate now args d) = 0 \<longrightarrow> savedThenConfirmed d (cmdUpdate now args d))
   \<and> (exit_code (cmdDelete args d) = 0 \<longrightarrow> savedThenConfirmed d (cmdDelete args d))
   \<and> (exit_code (cmdMark now args st d) = 0 \<longrightarrow> savedThenConfirmed d (cmdMark now args st d))"
  using cmdList_no_write cmdList_unchanged cmdAdd_confirmed cmdUpdate_confirmed
    cmdDelete_confirmed cmdMark_confirmed by blast

theorem writers_save_list_does_not_witness:
  "exit_code (cmdDelete [''1''] twoTaskDisk) = 0
   \<and> savedThenConfirmed twoTaskDisk (cmdDelete [''1''] twoTaskDisk)
   \<and> events (cmdDelete [''1''] twoTaskDisk) = [WriteFile [twoTasks ! 1], Stdout (Deleted (Fin 1))]
   \<and> exit_code (cmdAdd 900 [''Task C''] twoTaskDisk) = 0
   \<and> savedThenConfirmed twoTaskDisk (cmdAdd 900 [''Task C''] twoTaskDisk)"
proof -
  have e: "exit_code (cmdDelete [''1''] twoTaskDisk) = 0" by code_simp
  have ev: "events (cmdDelete [''1''] twoTaskDisk) = [WriteFile [twoTasks ! 1], Stdout (Deleted (Fin 1))]"
    by code_simp
  have a: "exit_code (cmdAdd 900 [''Task C''] twoTaskDisk) = 0" by code_simp
  show ?thesis
    using e ev a writers_save_list_does_not [of "[''1'']" twoTaskDisk]
      writers_save_list_does_not [of "[''Task C'']" twoTaskDisk 900]
    by simp
qed

section \<open>The name of a task\<close>









section \<open>Loading\<close>

text \<open>
  C5, as stated, fails: the text of an empty file is not JSON, yet \<open>loadTasks\<close> returns
  the empty collection for it without a warning.
\<close>

theorem blank_file_no_warning:
  "dataFile blankDisk = Text True (SyntaxError ''Unexpected end of JSON input'')
   \<and> loadTasks blankDisk = ([], [])"
  by code_simp

text \<open>
  C5, amended. \<open>loadTasks\<close> returns the empty collection without a warning when the file
  is absent, when its text is blank, and when the text parses to something that is not
  an array; it returns the empty collection with a warning when the text is not blank
  and \<open>JSON.parse\<close> rejects it, or when the file cannot be read. The warning is not
  fatal: \<open>list\<close> then ends normally, and \<open>add\<close> stores a collection of one task.
\<close>

theorem load_cases:
  "(dataFile d = Absent \<longrightarrow> loadTasks d = ([], []))
   \<and> (dataFile d = Text False (SyntaxError err) \<longrightarrow>
        loadTasks d = ([], [Stderr (LoadWarning err)]))
   \<and> (dataFile d = Unreadable err \<longrightarrow> loadTasks d = ([], [Stderr (LoadWarning err)]))
   \<and> (dataFile d = Text True p \<longrightarrow> loadTasks d = ([], []))
   \<and> (dataFile d = Text False NonArray \<longrightarrow> loadTasks d = ([], []))
   \<and> (dataFile d = Text False (Array ts) \<longrightarrow> loadTasks d = (ts, []))
   \<and> (dataFile d = Text False (SyntaxError err) \<longrightarrow>
        cmdList [] d = finish [Stderr (LoadWarning err), Stdout NothingToShow] d)
   \<and> (dataFile d = Text False (SyntaxError err) \<and> write_error d = None \<longrightarrow>
        exit_code (cmdAdd now (a # xs) d) = 0
      \<and> length (stored (disk_after (cmdAdd now (a # xs) d))) = 1)"
proof -
  have l: "dataFile d = Text False (SyntaxError err) \<longrightarrow>
        cmdList [] d = finish [Stderr (LoadWarning err), Stdout NothingToShow] d"
    by (simp add: loadTasks_def cmdList_def)
  have s: "dataFile d = Text False (SyntaxError err) \<longrightarrow> stored d = []"
    by (simp add: stored_def loadTasks_def)
  have a: "dataFile d = Text False (SyntaxError err) \<and> write_error d = None \<longrightarrow>
        exit_code (cmdAdd now (a # xs) d) = 0
      \<and> length (stored (disk_after (cmdAdd now (a # xs) d))) = 1"
    using s by (simp add: cmdAdd_Cons stored_saveAndLog exit_code_saveAndLog)
  show ?thesis
    using l a by (simp add: loadTasks_def)
qed

theorem load_cases_witness:
  "dataFile corruptDisk = Text False (SyntaxError ''Unexpected token o in JSON'')
   \<and> loadTasks corruptDisk = ([], [Stderr (LoadWarning ''Unexpected token o in JSON'')])
   \<and> exit_code (cmdList [] corruptDisk) = 0
   \<and> loadTasks emptyDisk = ([], [])"
proof -
  have c: "dataFile corruptDisk = Text False (SyntaxError ''Unexpected token o in JSON'')"
    by code_simp
  have e: "dataFile emptyDisk = Absent" by code_simp
  show ?thesis
    using c e load_cases [of corruptDisk "''Unexpected token o in JSON''"]
      load_cases [of emptyDisk] by (simp add: finish_def)
qed

section \<open>The id argument\<close>

lemma radixValue_nonneg: "0 \<le> r \<Longrightarrow> 0 \<le> radixValue r dv ds"
proof -
  assume r: "0 \<le> r"
  have "0 \<le> a \<Longrightarrow> 0 \<le> foldl (\<lambda>a c. r * a + int (dv c)) a ds" for a
    by (induction ds arbitrary: a) (simp_all add: r)
  then show ?thesis by (simp add: radixValue_def)
qed

lemma isDigit_not_others:
  "isDigit c \<Longrightarrow> \<not> isWhiteSpace c" "isDigit c \<Longrightarrow> c \<noteq> CHR ''+''" "isDigit c \<Longrightarrow> c \<noteq> CHR ''-''"
  by (auto simp: isDigit_def isWhiteSpace_def)

lemma sign_not_whitespace: "\<not> isWhiteSpace CHR ''+''" "\<not> isWhiteSpace CHR ''-''"
  by (simp_all add: isWhiteSpace_def)

lemma takeWhile_digits:
  "list_all isDigit ds \<Longrightarrow> rest = [] \<or> \<not> isDigit (hd rest) \<Longrightarrow>
   takeWhile isDigit (ds @ rest) = ds"
  by (cases rest) (auto simp: list_all_iff)

lemma parseInt_parts:
  assumes "list_all isWhiteSpace ws" and "sg = [] \<or> sg = ''+'' \<or> sg = ''-''"
      and "ds \<noteq> []" and "list_all isDigit ds" and "rest = [] \<or> \<not> isDigit (hd rest)"
  shows "parseInt (ws @ sg @ ds @ rest) =
           toDouble ((if sg = ''-'' then - 1 else 1) * of_int (decimalValue ds))"
proof -
  from assms(3,4) obtain c cs where ds: "ds = c # cs" and c: "isDigit c"
    by (cases ds) auto
  have hd_tail: "sg @ ds @ rest \<noteq> [] \<and> \<not> isWhiteSpace (hd (sg @ ds @ rest))"
    using assms(2) ds c by (auto simp: isDigit_not_others sign_not_whitespace)
  then obtain y ys where tail: "sg @ ds @ rest = y # ys" and y: "\<not> isWhiteSpace y"
    by (cases "sg @ ds @ rest") auto
  have "trimStart (ws @ sg @ ds @ rest) = dropWhile isWhiteSpace (sg @ ds @ rest)"
    unfolding trimStart_def using assms(1) by (simp add: list_all_iff)
  also have "\<dots> = sg @ ds @ rest" unfolding tail using y by simp
  finally have t: "trimStart (ws @ sg @ ds @ rest) = sg @ ds @ rest" .
  have tw: "takeWhile isDigit (ds @ rest) = ds"
    by (rule takeWhile_digits [OF assms(4,5)])
  from assms(2) show ?thesis
  proof (elim disjE)
    assume "sg = []"
    then show ?thesis
      unfolding parseInt_def t using tw assms(3) c ds
      by (simp add: Let_def isDigit_not_others)
  next
    assume "sg = ''+''"
    then show ?thesis
      unfolding parseInt_def t using tw assms(3) by (simp add: Let_def)
  next
    assume "sg = ''-''"
    then show ?thesis
      unfolding parseInt_def t using tw assms(3) by (simp add: Let_def)
  qed
qed

lemma parseInt_prefix:
  assumes "ds \<noteq> []" and "list_all isDigit ds" and "rest = [] \<or> \<not> isDigit (hd rest)"
      and "decimalValue ds \<le> 2 ^ 53"
  shows "parseInt (ds @ rest) = Fin (of_int (decimalValue ds))"
proof -
  have "0 \<le> decimalValue ds" by (simp add: decimalValue_def radixValue_nonneg)
  with assms(4) have "\<bar>decimalValue ds\<bar> \<le> 2 ^ 53" by simp
  from toDouble_int [OF this] parseInt_parts [of "[]" "[]" ds rest] assms(1,2,3)
  show ?thesis by simp
qed

lemma parseInt_digits:
  assumes "ds \<noteq> []" and "list_all isDigit ds" and "decimalValue ds \<le> 2 ^ 53"
  shows "parseInt ds = Fin (of_int (decimalValue ds))"
  using parseInt_prefix [of ds "[]"] assms by simp

text \<open>A string parseInt accepts is white space, a sign or none, digits, and a rest.\<close>

lemma parseInt_not_NaN:
  "parseInt a \<noteq> NaN \<longleftrightarrow>
     (\<exists>ws sg ds rest. a = ws @ sg @ ds @ rest \<and> list_all isWhiteSpace ws
        \<and> (sg = [] \<or> sg = ''+'' \<or> sg = ''-'') \<and> ds \<noteq> [] \<and> list_all isDigit ds)"
proof
  assume nn: "parseInt a \<noteq> NaN"
  define ws where "ws = takeWhile isWhiteSpace a"
  define S where "S = trimStart a"
  define sg where "sg = (if S \<noteq> [] \<and> (hd S = CHR ''+'' \<or> hd S = CHR ''-'') then [hd S] else [])"
  define S' where "S' = (if S \<noteq> [] \<and> (hd S = CHR ''+'' \<or> hd S = CHR ''-'') then tl S else S)"
  define ds where "ds = takeWhile isDigit S'"
  define rest where "rest = dropWhile isDigit S'"
  have a: "a = ws @ S" by (simp add: ws_def S_def trimStart_def)
  have S: "S = sg @ S'" by (simp add: sg_def S'_def)
  have S': "S' = ds @ rest" by (simp add: ds_def rest_def)
  have 1: "a = ws @ sg @ ds @ rest" by (simp only: a S S')
  have 2: "list_all isWhiteSpace ws"
    unfolding ws_def list_all_iff by (blast dest: set_takeWhileD)
  have 3: "sg = [] \<or> sg = ''+'' \<or> sg = ''-''" by (auto simp: sg_def)
  have "parseInt a = (if ds = [] then NaN else toDouble ((if S \<noteq> [] \<and> hd S = CHR ''-'' then - 1 else 1) * of_int (decimalValue ds)))"
    by (simp add: parseInt_def Let_def ds_def S'_def S_def)
  with nn have 4: "ds \<noteq> []" by auto
  have 5: "list_all isDigit ds"
    unfolding ds_def list_all_iff by (blast dest: set_takeWhileD)
  from 1 2 3 4 5
  show "\<exists>ws sg ds rest. a = ws @ sg @ ds @ rest \<and> list_all isWhiteSpace ws
        \<and> (sg = [] \<or> sg = ''+'' \<or> sg = ''-'') \<and> ds \<noteq> [] \<and> list_all isDigit ds"
    by blast
next
  assume "\<exists>ws sg ds rest. a = ws @ sg @ ds @ rest \<and> list_all isWhiteSpace ws
        \<and> (sg = [] \<or> sg = ''+'' \<or> sg = ''-'') \<and> ds \<noteq> [] \<and> list_all isDigit ds"
  then obtain ws sg ds rest where a: "a = ws @ sg @ ds @ rest" and ws: "list_all isWhiteSpace ws"
    and sg: "sg = [] \<or> sg = ''+'' \<or> sg = ''-''" and ds: "ds \<noteq> []" "list_all isDigit ds"
    by blast
  let ?ds' = "ds @ takeWhile isDigit rest"
  let ?rest' = "dropWhile isDigit rest"
  have a': "a = ws @ sg @ ?ds' @ ?rest'" using a by simp
  have 1: "?ds' \<noteq> []" using ds by simp
  have 2: "list_all isDigit ?ds'" using ds 
    by (auto simp: list_all_iff dest: set_takeWhileD)
  have 3: "?rest' = [] \<or> \<not> isDigit (hd ?rest')"
    using hd_dropWhile [of isDigit rest] by blast
  show "parseInt a \<noteq> NaN"
    unfolding a' parseInt_parts [OF ws sg 1 2 3] by (rule toDouble_not_NaN)
qed

lemma InvalidId_not_warning: "Stderr InvalidId \<notin> set (snd (loadTasks d))"
  using loadTasks_warnings [of "Stderr InvalidId" d] by auto

lemma InvalidId_saveAndLog:
  "Stderr InvalidId \<notin> set (events (saveAndLog (snd (loadTasks d)) ts m d))"
proof (cases "write_error d")
  case None
  then show ?thesis using InvalidId_not_warning [of d] by (simp add: saveAndLog_ok finish_def)
next
  case (Some f)
  then obtain e l where "write_error d = Some (e, l)" by (cases f) auto
  then show ?thesis using InvalidId_not_warning [of d] by (simp add: saveAndLog_fail)
qed

lemma InvalidId_delete:
  "Stderr InvalidId \<in> set (events (cmdDelete (a # xs) d)) \<longleftrightarrow> parseInt a = NaN"
  using InvalidId_not_warning [of d] InvalidId_saveAndLog [of d]
  by (simp add: cmdDelete_Cons exit1_def)

lemma InvalidId_mark:
  "Stderr InvalidId \<in> set (events (cmdMark now (a # xs) st d)) \<longleftrightarrow> parseInt a = NaN"
  using InvalidId_not_warning [of d] InvalidId_saveAndLog [of d]
  by (simp add: cmdMark_Cons exit1_def)

lemma InvalidId_update:
  "Stderr InvalidId \<in> set (events (cmdUpdate now (a # x # xs) d)) \<longleftrightarrow> parseInt a = NaN"
  using InvalidId_not_warning [of d] InvalidId_saveAndLog [of d]
  by (simp add: cmdUpdate_Cons exit1_def)

lemma cmdUpdate_parseInt:
  "parseInt a = parseInt b \<Longrightarrow> cmdUpdate now (a # xs) d = cmdUpdate now (b # xs) d"
  by (simp add: cmdUpdate_def Let_def)

lemma cmdDelete_parseInt:
  "parseInt a = parseInt b \<Longrightarrow> cmdDelete (a # xs) d = cmdDelete (b # xs) d"
  by (simp add: cmdDelete_def Let_def)

lemma cmdMark_parseInt:
  "parseInt a = parseInt b \<Longrightarrow> cmdMark now (a # xs) st d = cmdMark now (b # xs) st d"
  by (simp add: cmdMark_def Let_def)

lemma sameId_Fin: "sameId (Fin q) t \<longleftrightarrow> Number (id' t) = Fin q"
  by (auto simp: sameId_def strictEquals_def)

text \<open>
  C9. Let the id argument be a non-empty string of decimal digits \<open>ds\<close>, of a value up
  to \<open>2 ^ 53\<close>, followed by a rest that is empty or starts with a character that is no
  digit. Then \<open>parseInt\<close> gives the value of \<open>ds\<close>; \<open>update\<close>, \<open>delete\<close> and the marking
  commands run exactly as on the argument \<open>ds\<close> and never print the invalid-id error.
  When a stored task has that value as its id after coercion and the write succeeds,
  they exit with 0 and act on the tasks of that id: \<open>delete\<close> stores the collection
  without them, \<open>update\<close> and the marking commands rewrite the first of them, at the
  index \<open>k\<close>. For any argument \<open>a\<close>, the invalid-id error is printed exactly when
  \<open>parseInt a\<close> is \<open>NaN\<close>, that is, when \<open>a\<close> is not white space, an optional sign and at
  least one digit, followed by anything.
\<close>

theorem id_argument_prefix:
  assumes "ds \<noteq> []" and "list_all isDigit ds" and "rest = [] \<or> \<not> isDigit (hd rest)"
      and "decimalValue ds \<le> 2 ^ 53"
  shows "parseInt (ds @ rest) = Fin (of_int (decimalValue ds))
       \<and> cmdUpdate now ((ds @ rest) # xs) d = cmdUpdate now (ds # xs) d
       \<and> cmdDelete ((ds @ rest) # xs) d = cmdDelete (ds # xs) d
       \<and> cmdMark now ((ds @ rest) # xs) st d = cmdMark now (ds # xs) st d
       \<and> Stderr InvalidId \<notin> set (events (cmdUpdate now ((ds @ rest) # x # xs) d))
       \<and> Stderr InvalidId \<notin> set (events (cmdDelete ((ds @ rest) # xs) d))
       \<and> Stderr InvalidId \<notin> set (events (cmdMark now ((ds @ rest) # xs) st d))
       \<and> (let ts = stored d; has = (\<lambda>t. Number (id' t) = Fin (of_int (decimalValue ds)))
          in write_error d = None \<and> (\<exists>t\<in>set ts. has t) \<longrightarrow>
               (\<exists>k<length ts. has (ts ! k) \<and> (\<forall>j<k. \<not> has (ts ! j))
                  \<and> exit_code (cmdDelete ((ds @ rest) # xs) d) = 0
                  \<and> stored (disk_after (cmdDelete ((ds @ rest) # xs) d)) =
                      filter (\<lambda>t. \<not> has t) ts
                  \<and> exit_code (cmdMark now ((ds @ rest) # xs) st d) = 0
                  \<and> stored (disk_after (cmdMark now ((ds @ rest) # xs) st d)) =
                      ts[k := (ts ! k)\<lparr>status := st, updatedAt := now\<rparr>]
                  \<and> exit_code (cmdUpdate now ((ds @ rest) # x # xs) d) = 0
                  \<and> stored (disk_after (cmdUpdate now ((ds @ rest) # x # xs) d)) =
                      ts[k := (ts ! k)\<lparr>description := join '' '' (x # xs),
                                         updatedAt := now\<rparr>]))
       \<and> (Stderr InvalidId \<in> set (events (cmdUpdate now (a # x # xs) d)) \<longleftrightarrow> parseInt a = NaN)
       \<and> (Stderr InvalidId \<in> set (events (cmdDelete (a # xs) d)) \<longleftrightarrow> parseInt a = NaN)
       \<and> (Stderr InvalidId \<in> set (events (cmdMark now (a # xs) st d)) \<longleftrightarrow> parseInt a = NaN)
       \<and> (parseInt a = NaN \<longleftrightarrow>
            \<not> (\<exists>ws sg ds' rest'. a = ws @ sg @ ds' @ rest' \<and> list_all isWhiteSpace ws
                 \<and> (sg = [] \<or> sg = ''+'' \<or> sg = ''-'') \<and> ds' \<noteq> [] \<and> list_all isDigit ds'))"
proof -
  let ?n = "Fin (of_int (decimalValue ds))"
  let ?ts = "stored d"
  let ?has = "\<lambda>t. Number (id' t) = ?n"
  have p: "parseInt (ds @ rest) = ?n" by (rule parseInt_prefix [OF assms])
  have q: "parseInt ds = ?n" by (rule parseInt_digits [OF assms(1,2,4)])
  have pq: "parseInt (ds @ rest) = parseInt ds" by (simp only: p q)
  have has: "sameId ?n = ?has" by (rule ext) (simp add: sameId_Fin)
  have acts: "write_error d = None \<and> (\<exists>t\<in>set ?ts. ?has t) \<longrightarrow>
               (\<exists>k<length ?ts. ?has (?ts ! k) \<and> (\<forall>j<k. \<not> ?has (?ts ! j))
                  \<and> exit_code (cmdDelete ((ds @ rest) # xs) d) = 0
                  \<and> stored (disk_after (cmdDelete ((ds @ rest) # xs) d)) =
                      filter (\<lambda>t. \<not> ?has t) ?ts
                  \<and> exit_code (cmdMark now ((ds @ rest) # xs) st d) = 0
                  \<and> stored (disk_after (cmdMark now ((ds @ rest) # xs) st d)) =
                      ?ts[k := (?ts ! k)\<lparr>status := st, updatedAt := now\<rparr>]
                  \<and> exit_code (cmdUpdate now ((ds @ rest) # x # xs) d) = 0
                  \<and> stored (disk_after (cmdUpdate now ((ds @ rest) # x # xs) d)) =
                      ?ts[k := (?ts ! k)\<lparr>description := join '' '' (x # xs),
                                         updatedAt := now\<rparr>])"
  proof (intro impI, elim conjE)
    assume w: "write_error d = None" and some: "\<exists>t\<in>set ?ts. ?has t"
    let ?k = "nat (findIndex (sameId ?n) ?ts)"
    from some have ex: "(\<forall>t\<in>set ?ts. \<not> sameId ?n t) = False" by (simp add: sameId_Fin)
    then have f: "findIndex (sameId ?n) ?ts \<noteq> - 1" by (simp add: findIndex_none)
    from findIndex_found [OF f]
    have k: "?k < length ?ts" and m: "sameId ?n (?ts ! ?k)"
      and first: "\<forall>j<?k. \<not> sameId ?n (?ts ! j)" by blast+
    have del: "exit_code (cmdDelete ((ds @ rest) # xs) d) = 0
        \<and> stored (disk_after (cmdDelete ((ds @ rest) # xs) d)) = filter (\<lambda>t. \<not> sameId ?n t) ?ts"
      using w by (simp add: cmdDelete_Cons p ex stored_saveAndLog exit_code_saveAndLog)
    have mrk: "exit_code (cmdMark now ((ds @ rest) # xs) st d) = 0
        \<and> stored (disk_after (cmdMark now ((ds @ rest) # xs) st d)) =
            ?ts[?k := (?ts ! ?k)\<lparr>status := st, updatedAt := now\<rparr>]"
      using w f by (simp add: cmdMark_Cons p stored_saveAndLog exit_code_saveAndLog)
    have upd: "exit_code (cmdUpdate now ((ds @ rest) # x # xs) d) = 0
        \<and> stored (disk_after (cmdUpdate now ((ds @ rest) # x # xs) d)) =
            ?ts[?k := (?ts ! ?k)\<lparr>description := join '' '' (x # xs), updatedAt := now\<rparr>]"
      using w f by (simp add: cmdUpdate_Cons p stored_saveAndLog exit_code_saveAndLog)
    show "\<exists>k<length ?ts. ?has (?ts ! k) \<and> (\<forall>j<k. \<not> ?has (?ts ! j))
                  \<and> exit_code (cmdDelete ((ds @ rest) # xs) d) = 0
                  \<and> stored (disk_after (cmdDelete ((ds @ rest) # xs) d)) =
                      filter (\<lambda>t. \<not> ?has t) ?ts
                  \<and> exit_code (cmdMark now ((ds @ rest) # xs) st d) = 0
                  \<and> stored (disk_after (cmdMark now ((ds @ rest) # xs) st d)) =
                      ?ts[k := (?ts ! k)\<lparr>status := st, updatedAt := now\<rparr>]
                  \<and> exit_code (cmdUpdate now ((ds @ rest) # x # xs) d) = 0
                  \<and> stored (disk_after (cmdUpdate now ((ds @ rest) # x # xs) d)) =
                      ?ts[k := (?ts ! k)\<lparr>description := join '' '' (x # xs),
                                         updatedAt := now\<rparr>]"
      using k m first del mrk upd by (intro exI [of _ ?k]) (simp add: has)
  qed
  have nan: "parseInt a = NaN \<longleftrightarrow>
            \<not> (\<exists>ws sg ds' rest'. a = ws @ sg @ ds' @ rest' \<and> list_all isWhiteSpace ws
                 \<and> (sg = [] \<or> sg = ''+'' \<or> sg = ''-'') \<and> ds' \<noteq> [] \<and> list_all isDigit ds')"
    using parseInt_not_NaN [of a] by blast
  have inv: "Stderr InvalidId \<notin> set (events (cmdUpdate now ((ds @ rest) # x # xs) d))"
     "Stderr InvalidId \<notin> set (events (cmdDelete ((ds @ rest) # xs) d))"
     "Stderr InvalidId \<notin> set (events (cmdMark now ((ds @ rest) # xs) st d))"
    by (simp_all add: InvalidId_update InvalidId_delete InvalidId_mark p)
  show ?thesis
    unfolding Let_def
    apply (intro conjI)
    apply (rule p)
    apply (rule cmdUpdate_parseInt [OF pq])
    apply (rule cmdDelete_parseInt [OF pq])
    apply (rule cmdMark_parseInt [OF pq])
    apply (rule inv(1))
    apply (rule inv(2))
    apply (rule inv(3))
    apply (rule acts)
    apply (rule InvalidId_update)
    apply (rule InvalidId_delete)
    apply (rule InvalidId_mark)
    apply (rule nan)
    done
qed

theorem id_argument_prefix_witness:
  "list_all isDigit ''2'' \<and> \<not> isDigit (hd ''abc'') \<and> decimalValue ''2'' \<le> 2 ^ 53
   \<and> parseInt ''2abc'' = Fin 2
   \<and> stored (disk_after (cmdMark 900 [''2abc''] ''done'' twoTaskDisk)) =
       [twoTasks ! 0, (twoTasks ! 1)\<lparr>status := ''done'', updatedAt := 900\<rparr>]
   \<and> stored (disk_after (cmdUpdate 900 [''2abc'', ''new''] twoTaskDisk)) =
       [twoTasks ! 0, (twoTasks ! 1)\<lparr>description := ''new'', updatedAt := 900\<rparr>]
   \<and> stored (disk_after (cmdDelete [''2abc''] twoTaskDisk)) = [twoTasks ! 0]
   \<and> parseInt ''abc'' = NaN
   \<and> Stderr InvalidId \<in> set (events (cmdDelete [''abc''] twoTaskDisk))"
proof -
  have 1: "''2'' \<noteq> []" by simp
  have 2: "list_all isDigit ''2''" by code_simp
  have 3: "''abc'' = [] \<or> \<not> isDigit (hd ''abc'')" by code_simp
  have h3: "\<not> isDigit (hd ''abc'')" by code_simp
  have v: "decimalValue ''2'' = 2" by code_simp
  have 4: "decimalValue ''2'' \<le> 2 ^ 53" by (simp add: v)
  have n: "parseInt ''abc'' = NaN" by code_simp
  have mrk: "stored (disk_after (cmdMark 900 [''2''] ''done'' twoTaskDisk)) =
       [twoTasks ! 0, (twoTasks ! 1)\<lparr>status := ''done'', updatedAt := 900\<rparr>]" by code_simp
  have upd: "stored (disk_after (cmdUpdate 900 [''2'', ''new''] twoTaskDisk)) =
       [twoTasks ! 0, (twoTasks ! 1)\<lparr>description := ''new'', updatedAt := 900\<rparr>]" by code_simp
  have del: "stored (disk_after (cmdDelete [''2''] twoTaskDisk)) = [twoTasks ! 0]" by code_simp
  note t = id_argument_prefix [OF 1 2 3 4, where d = twoTaskDisk and a = "''abc''" and now = 900
      and st = "''done''"]
  from t [where xs = "[]"] have p: "parseInt ''2abc'' = Fin 2"
    and m: "cmdMark 900 [''2abc''] ''done'' twoTaskDisk = cmdMark 900 [''2''] ''done'' twoTaskDisk"
    and d: "cmdDelete [''2abc''] twoTaskDisk = cmdDelete [''2''] twoTaskDisk"
    and i: "Stderr InvalidId \<in> set (events (cmdDelete [''abc''] twoTaskDisk))"
    using n by (simp_all add: v)
  from t [where xs = "[''new'']"]
  have u: "cmdUpdate 900 [''2abc'', ''new''] twoTaskDisk = cmdUpdate 900 [''2'', ''new''] twoTaskDisk"
    by simp
  show ?thesis
    using 2 h3 4 n p i by (simp add: m u d mrk upd del)
qed

section \<open>Collections reachable from the empty store\<close>

lemma same_change: "admissible now ts Same \<and> ts = applyChange now Same ts"
  by (simp add: admissible_def)

lemma cmdUpdate_change:
  "\<exists>c. admissible now (stored d) c
     \<and> stored (disk_after (cmdUpdate now args d)) = applyChange now c (stored d)"
proof (cases "length args < 2")
  case True
  then have "stored (disk_after (cmdUpdate now args d)) = stored d"
    by (simp add: cmdUpdate_short exit1_def)
  then show ?thesis using same_change by metis
next
  case False
  then obtain a x xs where args: "args = a # x # xs"
    by (cases args; cases "tl args") auto
  let ?f = "findIndex (sameId (parseInt a)) (stored d)"
  show ?thesis
  proof (cases "parseInt a \<noteq> NaN \<and> ?f \<noteq> - 1")
    case True
    then have i: "nat ?f < length (stored d)" using findIndex_found(2) by blast
    have r: "cmdUpdate now args d =
        saveAndLog (snd (loadTasks d))
          ((stored d)[nat ?f := (stored d ! nat ?f)\<lparr>description := join '' '' (x # xs),
                                                    updatedAt := now\<rparr>])
          (Updated (parseInt a)) d"
      using True by (simp add: args cmdUpdate_Cons)
    have "admissible now (stored d) (Redescribed (nat ?f) (join '' '' (x # xs)))"
      using i by (simp add: admissible_def)
    moreover have "applyChange now (Redescribed (nat ?f) (join '' '' (x # xs))) (stored d) =
        (stored d)[nat ?f := (stored d ! nat ?f)\<lparr>description := join '' '' (x # xs),
                                                  updatedAt := now\<rparr>]" by simp
    ultimately show ?thesis unfolding r by (rule saveAndLog_change)
  next
    case False
    then have "stored (disk_after (cmdUpdate now args d)) = stored d"
      by (auto simp: args cmdUpdate_Cons exit1_def)
    then show ?thesis using same_change by metis
  qed
qed

lemma cmdMark_change:
  assumes "st = ''in-progress'' \<or> st = ''done''"
  shows "\<exists>c. admissible now (stored d) c
     \<and> stored (disk_after (cmdMark now args st d)) = applyChange now c (stored d)"
proof (cases args)
  case Nil
  then have "stored (disk_after (cmdMark now args st d)) = stored d"
    by (simp add: cmdMark_def exit1_def)
  then show ?thesis using same_change by metis
next
  case (Cons a xs)
  let ?f = "findIndex (sameId (parseInt a)) (stored d)"
  show ?thesis
  proof (cases "parseInt a \<noteq> NaN \<and> ?f \<noteq> - 1")
    case True
    then have i: "nat ?f < length (stored d)" using findIndex_found(2) by blast
    have r: "cmdMark now args st d =
        saveAndLog (snd (loadTasks d))
          ((stored d)[nat ?f := (stored d ! nat ?f)\<lparr>status := st, updatedAt := now\<rparr>])
          (Marked (parseInt a) st) d"
      using True by (simp add: Cons cmdMark_Cons)
    have "admissible now (stored d) (Remarked (nat ?f) st)"
      using i assms by (simp add: admissible_def)
    moreover have "applyChange now (Remarked (nat ?f) st) (stored d) =
        (stored d)[nat ?f := (stored d ! nat ?f)\<lparr>status := st, updatedAt := now\<rparr>]" by simp
    ultimately show ?thesis unfolding r by (rule saveAndLog_change)
  next
    case False
    then have "stored (disk_after (cmdMark now args st d)) = stored d"
      by (auto simp: Cons cmdMark_Cons exit1_def)
    then show ?thesis using same_change by metis
  qed
qed

lemma cmdDelete_change:
  "\<exists>c. admissible now (stored d) c
     \<and> stored (disk_after (cmdDelete args d)) = applyChange now c (stored d)"
proof (cases args)
  case Nil
  then have "stored (disk_after (cmdDelete args d)) = stored d"
    by (simp add: cmdDelete_def exit1_def)
  then show ?thesis using same_change by metis
next
  case (Cons a xs)
  show ?thesis
  proof (cases "parseInt a \<noteq> NaN \<and> \<not> (\<forall>t\<in>set (stored d). \<not> sameId (parseInt a) t)")
    case True
    then have nn: "parseInt a \<noteq> NaN"
      and ex: "(\<forall>t\<in>set (stored d). \<not> sameId (parseInt a) t) = False" by simp_all
    have r: "cmdDelete args d =
        saveAndLog (snd (loadTasks d)) (filter (\<lambda>t. \<not> sameId (parseInt a) t) (stored d))
          (Deleted (parseInt a)) d"
      by (simp add: Cons cmdDelete_Cons nn ex)
    have "admissible now (stored d) (Removed (parseInt a))" by (simp add: admissible_def)
    moreover have "applyChange now (Removed (parseInt a)) (stored d) =
        filter (\<lambda>t. \<not> sameId (parseInt a) t) (stored d)" by simp
    ultimately show ?thesis unfolding r by (rule saveAndLog_change)
  next
    case False
    then have "stored (disk_after (cmdDelete args d)) = stored d"
      by (auto simp: Cons cmdDelete_Cons exit1_def)
    then show ?thesis using same_change by metis
  qed
qed

lemma main_change:
  "\<exists>c. admissible now (stored d) c
     \<and> stored (disk_after (main now argv d)) = applyChange now c (stored d)"
proof (cases argv)
  case Nil
  then have "stored (disk_after (main now argv d)) = stored d"
    by (simp add: main_def finish_def)
  then show ?thesis using same_change by metis
next
  case (Cons command args)
  show ?thesis
  proof (cases "command = ''add''")
    case True
    then have "main now argv d = cmdAdd now args d" by (simp add: Cons main_def)
    then show ?thesis using cmdAdd_change [of now d args] by simp
  next
    case n1: False
    show ?thesis
    proof (cases "command = ''update''")
      case True
      then have "main now argv d = cmdUpdate now args d" by (simp add: Cons main_def)
      then show ?thesis using cmdUpdate_change [of now d args] by simp
    next
      case n2: False
      show ?thesis
      proof (cases "command = ''delete''")
        case True
        then have "main now argv d = cmdDelete args d" by (simp add: Cons main_def)
        then show ?thesis using cmdDelete_change [of now d args] by simp
      next
        case n3: False
        show ?thesis
        proof (cases "command = ''mark-in-progress''")
          case True
          then have "main now argv d = cmdMark now args ''in-progress'' d"
            by (simp add: Cons main_def)
          then show ?thesis using cmdMark_change [of "''in-progress''" now d args] by simp
        next
          case n4: False
          show ?thesis
          proof (cases "command = ''mark-done''")
            case True
            then have "main now argv d = cmdMark now args ''done'' d"
              by (simp add: Cons main_def)
            then show ?thesis using cmdMark_change [of "''done''" now d args] by simp
          next
            case n5: False
            have "disk_after (main now argv d) = d"
              using n1 n2 n3 n4 n5
              by (simp add: Cons main_def finish_def exit1_def cmdList_unchanged)
            then have "stored (disk_after (main now argv d)) = stored d" by simp
            then show ?thesis using same_change by metis
          qed
        qed
      qed
    qed
  qed
qed

lemma positiveIntegerId_Number:
  "positiveIntegerId t \<longleftrightarrow> (\<exists>k::int. 0 < k \<and> id' t = JNumber (of_int k))"
proof
  assume "positiveIntegerId t"
  then obtain q where q: "id' t = JNumber q" "q = of_int \<lfloor>q\<rfloor>" "0 < q"
    by (auto simp: positiveIntegerId_def split: js_value.splits)
  then have "0 < \<lfloor>q\<rfloor>" by linarith
  with q show "\<exists>k::int. 0 < k \<and> id' t = JNumber (of_int k)" by metis
next
  assume "\<exists>k::int. 0 < k \<and> id' t = JNumber (of_int k)"
  then show "positiveIntegerId t" by (auto simp: positiveIntegerId_def)
qed

text \<open>On a collection of positive integer ids the next id is above all of them.\<close>

lemma getNextId_above:
  assumes "\<forall>t\<in>set ts. positiveIntegerId t" and "\<forall>t\<in>set ts. idOf t < 2 ^ 53"
  shows "\<exists>m::int. 0 < m \<and> getNextId ts = Fin (of_int m) \<and> (\<forall>t\<in>set ts. idOf t < of_int m)
           \<and> (ts = [] \<longrightarrow> m = 1) \<and> (ts \<noteq> [] \<longrightarrow> (\<exists>t\<in>set ts. idOf t = of_int m - 1))"
proof -
  have "k < 2 ^ 53" if "t \<in> set ts" "Number (id' t) = Fin (of_int k)" for t and k :: int
  proof -
    from assms(1) that(1) obtain j :: int where j: "id' t = JNumber (of_int j)"
      by (auto simp: positiveIntegerId_Number)
    with that(2) have "idOf t = of_int k" by (simp add: idOf_def)
    with assms(2) that(1) have "(of_int k :: rat) < 2 ^ 53" by auto
    then have "(of_int k :: rat) < of_int (2 ^ 53)" by simp
    then show ?thesis by (simp only: of_int_less_iff)
  qed
  then have small: "\<forall>t\<in>set ts. \<forall>k::int. Number (id' t) = Fin (of_int k) \<longrightarrow> k < 2 ^ 53"
    by blast
  from getNextId_fresh [OF small] obtain m :: int where m: "0 < m" "getNextId ts = Fin (of_int m)"
    "\<forall>t\<in>set ts. \<forall>k::int. 0 < k \<and> Number (id' t) = Fin (of_int k) \<longrightarrow> k < m"
    "m = 1 \<or> (\<exists>t\<in>set ts. Number (id' t) = Fin (of_int (m - 1)))"
    by blast
  have below: "idOf t < of_int m" if "t \<in> set ts" for t
  proof -
    from assms(1) that obtain k :: int where k: "0 < k" "id' t = JNumber (of_int k)"
      by (auto simp: positiveIntegerId_Number)
    then have "k < m" using m(3) that by simp
    with k show ?thesis by (simp add: idOf_def)
  qed
  have last: "\<exists>t\<in>set ts. idOf t = of_int m - 1" if "ts \<noteq> []"
  proof -
    from that obtain t0 where t0: "t0 \<in> set ts" by (cases ts) auto
    from assms(1) t0 obtain k :: int where k: "0 < k" "id' t0 = JNumber (of_int k)"
      by (auto simp: positiveIntegerId_Number)
    then have "k < m" using m(3) t0 by simp
    with k have "m \<noteq> 1" by simp
    with m(4) obtain t where t: "t \<in> set ts" "Number (id' t) = Fin (of_int (m - 1))" by blast
    from assms(1) t(1) obtain j :: int where j: "id' t = JNumber (of_int j)"
      by (auto simp: positiveIntegerId_Number)
    with t(2) have "idOf t = of_int m - 1" by (simp add: idOf_def)
    with t(1) show ?thesis by blast
  qed
  have first: "ts = [] \<longrightarrow> m = 1" using m(4) by auto
  show ?thesis using m(1,2) below last first by blast
qed

lemma idOf_update [simp]:
  "idOf (t\<lparr>description := desc, updatedAt := now\<rparr>) = idOf t"
  "idOf (t\<lparr>status := st, updatedAt := now\<rparr>) = idOf t"
  by (simp_all add: idOf_def)

lemma positiveIntegerId_update [simp]:
  "positiveIntegerId (t\<lparr>description := desc, updatedAt := now\<rparr>) = positiveIntegerId t"
  "positiveIntegerId (t\<lparr>status := st, updatedAt := now\<rparr>) = positiveIntegerId t"
  by (simp_all add: positiveIntegerId_def)

lemma map_update_same:
  assumes "f t' = f (ts ! i)"
  shows "map f (ts[i := t']) = map f ts"
proof -
  have "map f (ts[i := t']) = (map f ts)[i := f (ts ! i)]" using assms by (simp add: map_update)
  also have "\<dots> = map f (ts[i := ts ! i])" by (simp only: map_update)
  also have "\<dots> = map f ts" by simp
  finally show ?thesis .
qed

lemma list_all_update:
  "list_all P ts \<Longrightarrow> (i < length ts \<Longrightarrow> P t') \<Longrightarrow> list_all P (ts[i := t'])"
proof (cases "i < length ts")
  case True
  assume "list_all P ts" and "i < length ts \<Longrightarrow> P t'"
  with True show ?thesis
    using set_update_subset_insert [of ts i t'] by (auto simp: list_all_iff)
next
  case False
  then have "ts[i := t'] = ts" by (simp add: list_update_beyond)
  moreover assume "list_all P ts"
  ultimately show ?thesis by simp
qed

lemma idsBelow_change:
  assumes "idsBelow n ts" and "admissible now ts c" and "n < 2 ^ 53"
  shows "idsBelow (Suc n) (applyChange now c ts)"
proof -
  from assms(1) have ord: "idsOrdered ts" and le: "\<forall>t\<in>set ts. idOf t \<le> of_nat n"
    by (simp_all add: idsBelow_def list_all_iff)
  from le have le': "list_all (\<lambda>t. idOf t \<le> of_nat (Suc n)) ts"
    by (auto simp: list_all_iff intro: order_trans)
  from ord have all: "\<forall>t\<in>set ts. positiveIntegerId t" by (simp add: idsOrdered_def list_all_iff)
  from assms(3) have "(of_nat n :: rat) < of_nat (2 ^ 53)" by (simp only: of_nat_less_iff)
  then have n: "(of_nat n :: rat) < 2 ^ 53" by simp
  with le have small: "\<forall>t\<in>set ts. idOf t < 2 ^ 53" by (auto intro: le_less_trans)
  show ?thesis
  proof (cases c)
  case Same
  with ord le' show ?thesis by (simp add: idsBelow_def)
next
  case Lost
  then show ?thesis by (simp add: idsBelow_def idsOrdered_def)
next
  case (Appended t)
  from getNextId_above [OF all small] obtain m :: int where m: "0 < m" "getNextId ts = Fin (of_int m)"
    "\<forall>t\<in>set ts. idOf t < of_int m" "ts = [] \<longrightarrow> m = 1"
    "ts \<noteq> [] \<longrightarrow> (\<exists>t\<in>set ts. idOf t = of_int m - 1)" by blast
  from assms(2) Appended m(2) have idt: "id' t = JNumber (of_int m)"
    by (simp add: admissible_def jsonNumber_def)
  then have new: "positiveIntegerId t" "idOf t = of_int m"
    using m(1) by (auto simp: positiveIntegerId_Number idOf_def)
  have "(of_int m :: rat) \<le> of_nat (Suc n)"
  proof (cases "ts = []")
    case True
    with m(4) show ?thesis by simp
  next
    case False
    with m(5) obtain t' where "t' \<in> set ts" "idOf t' = of_int m - 1" by blast
    with le have "(of_int m :: rat) - 1 \<le> of_nat n" by auto
    then show ?thesis by simp
  qed
  with new ord m(3) le' show ?thesis
    by (simp add: Appended idsBelow_def idsOrdered_def sorted_wrt_append)
next
  case (Redescribed i desc)
  let ?t' = "(ts ! i)\<lparr>description := desc, updatedAt := now\<rparr>"
  have "map idOf (ts[i := ?t']) = map idOf ts" by (rule map_update_same) simp
  moreover have "list_all positiveIntegerId (ts[i := ?t'])"
    using ord by (intro list_all_update) (auto simp: idsOrdered_def list_all_iff)
  moreover have "list_all (\<lambda>t. idOf t \<le> of_nat (Suc n)) (ts[i := ?t'])"
    using le' by (intro list_all_update) (auto simp: list_all_iff)
  ultimately show ?thesis using ord by (simp add: Redescribed idsBelow_def idsOrdered_def)
next
  case (Remarked i st)
  let ?t' = "(ts ! i)\<lparr>status := st, updatedAt := now\<rparr>"
  have "map idOf (ts[i := ?t']) = map idOf ts" by (rule map_update_same) simp
  moreover have "list_all positiveIntegerId (ts[i := ?t'])"
    using ord by (intro list_all_update) (auto simp: idsOrdered_def list_all_iff)
  moreover have "list_all (\<lambda>t. idOf t \<le> of_nat (Suc n)) (ts[i := ?t'])"
    using le' by (intro list_all_update) (auto simp: list_all_iff)
  ultimately show ?thesis using ord by (simp add: Remarked idsBelow_def idsOrdered_def)
next
  case (Removed n')
  have "sorted_wrt (<) (map idOf (filter (\<lambda>t. \<not> sameId n' t) ts))"
    using ord by (simp add: idsOrdered_def sorted_wrt_map sorted_wrt_filter)
  with ord le' show ?thesis
    by (simp add: Removed idsBelow_def idsOrdered_def list_all_iff)
qed
qed

lemma statuses_change:
  assumes "list_all (\<lambda>t. status t \<in> set allowed) ts" and "admissible now ts c"
  shows "list_all (\<lambda>t. status t \<in> set allowed) (applyChange now c ts)"
proof (cases c)
  case Same
  with assms show ?thesis by simp
next
  case Lost
  then show ?thesis by simp
next
  case (Appended t)
  with assms show ?thesis by (simp add: admissible_def allowed_def)
next
  case (Redescribed i desc)
  show ?thesis unfolding Redescribed applyChange.simps
    using assms(1) by (intro list_all_update) (auto simp: list_all_iff)
next
  case (Remarked i st)
  from assms(2) have "st \<in> set allowed" by (auto simp: Remarked admissible_def allowed_def)
  then show ?thesis unfolding Remarked applyChange.simps
    using assms(1) by (intro list_all_update) (auto simp: list_all_iff)
next
  case (Removed n)
  with assms(1) show ?thesis by (simp add: list_all_iff)
qed

lemma stampedBy_change:
  assumes "stampedBy c0 ts" and "admissible now ts c" and "c0 \<le> now"
  shows "stampedBy now (applyChange now c ts)"
proof -
  have later: "stampedBy now ts"
    using assms(1,3) by (auto simp: stampedBy_def list_all_iff)
  show ?thesis
  proof (cases c)
    case Same
    with later show ?thesis by simp
  next
    case Lost
    then show ?thesis by (simp add: stampedBy_def)
  next
    case (Appended t)
    with assms(2) later show ?thesis by (simp add: admissible_def stampedBy_def)
  next
    case (Redescribed i desc)
    from assms(2) have i: "i < length ts" by (simp add: Redescribed admissible_def)
    then have "ts ! i \<in> set ts" by simp
    with later have "createdAt (ts ! i) \<le> updatedAt (ts ! i)" "updatedAt (ts ! i) \<le> now"
      by (auto simp: stampedBy_def list_all_iff)
    then have "createdAt (ts ! i) \<le> now" by linarith
    then show ?thesis unfolding Redescribed applyChange.simps stampedBy_def
      using later by (intro list_all_update) (auto simp: stampedBy_def)
  next
    case (Remarked i st)
    from assms(2) have i: "i < length ts" by (simp add: Remarked admissible_def)
    then have "ts ! i \<in> set ts" by simp
    with later have "createdAt (ts ! i) \<le> updatedAt (ts ! i)" "updatedAt (ts ! i) \<le> now"
      by (auto simp: stampedBy_def list_all_iff)
    then have "createdAt (ts ! i) \<le> now" by linarith
    then show ?thesis unfolding Remarked applyChange.simps stampedBy_def
      using later by (intro list_all_update) (auto simp: stampedBy_def)
  next
    case (Removed n)
    with later show ?thesis by (simp add: stampedBy_def list_all_iff)
  qed
qed

lemma invoke_change:
  "\<exists>c. admissible (fst i) (stored d) c \<and> stored (invoke d i) = applyChange (fst i) c (stored d)"
  unfolding invoke_def by (rule main_change)

lemma runAll_Cons: "runAll (i # is) d = runAll is (invoke d i)"
  by (simp add: runAll_def)

lemma runAll_idsBelow:
  "idsBelow n (stored d) \<Longrightarrow> n + length is \<le> 2 ^ 53 \<Longrightarrow>
   idsBelow (n + length is) (stored (runAll is d))"
proof (induction "is" arbitrary: d n)
  case Nil
  then show ?case by (simp add: runAll_def)
next
  case (Cons i "is")
  from invoke_change [of i d] obtain c where c: "admissible (fst i) (stored d) c"
    "stored (invoke d i) = applyChange (fst i) c (stored d)" by blast
  from Cons.prems(2) have n: "n < 2 ^ 53" and rest: "Suc n + length is \<le> 2 ^ 53" by simp_all
  from idsBelow_change [OF Cons.prems(1) c(1) n] c(2)
  have "idsBelow (Suc n) (stored (invoke d i))" by simp
  from Cons.IH [OF this rest] show ?case by (simp add: runAll_Cons)
qed

lemma runAll_statuses:
  "list_all (\<lambda>t. status t \<in> set allowed) (stored d) \<Longrightarrow>
   list_all (\<lambda>t. status t \<in> set allowed) (stored (runAll is d))"
proof (induction "is" arbitrary: d)
  case Nil
  then show ?case by (simp add: runAll_def)
next
  case (Cons i "is")
  from invoke_change [of i d] obtain c where c: "admissible (fst i) (stored d) c"
    "stored (invoke d i) = applyChange (fst i) c (stored d)" by blast
  from statuses_change [OF Cons.prems c(1)] c(2)
  have "list_all (\<lambda>t. status t \<in> set allowed) (stored (invoke d i))" by simp
  from Cons.IH [OF this] show ?case by (simp only: runAll_Cons)
qed

lemma runAll_stampedBy:
  "stampedBy c0 (stored d) \<Longrightarrow> sorted (c0 # map fst is) \<Longrightarrow>
   stampedBy (last (c0 # map fst is)) (stored (runAll is d))"
proof (induction "is" arbitrary: d c0)
  case Nil
  then show ?case by (simp add: runAll_def)
next
  case (Cons i "is")
  from invoke_change [of i d] obtain c where c: "admissible (fst i) (stored d) c"
    "stored (invoke d i) = applyChange (fst i) c (stored d)" by blast
  from Cons.prems(2) have le: "c0 \<le> fst i" and s: "sorted (fst i # map fst is)" by simp_all
  from stampedBy_change [OF Cons.prems(1) c(1) le] c(2)
  have "stampedBy (fst i) (stored (invoke d i))" by simp
  from Cons.IH [OF this s] show ?case by (simp add: runAll_Cons)
qed

lemma idsOrdered_distinct:
  assumes "idsOrdered ts"
  shows "distinct (map (\<lambda>t. Number (id' t)) ts)"
proof -
  have "Number (id' t) = Fin (idOf t)" if "t \<in> set ts" for t
    using assms that
    by (auto simp: idsOrdered_def list_all_iff positiveIntegerId_Number idOf_def)
  then have "map (\<lambda>t. Number (id' t)) ts = map Fin (map idOf ts)" by simp
  moreover have "distinct (map idOf ts)"
    using assms by (simp add: idsOrdered_def strict_sorted_iff)
  ultimately show ?thesis by (simp add: distinct_map inj_on_def del: map_map)
qed

text \<open>
  C8, as stated, fails: the program stamps a task with the clock reading of the run. When
  the clock is set back between an \<open>add\<close> and a later \<open>mark-done\<close>, the stored task has
  an updatedAt before its createdAt.
\<close>

theorem clock_set_back:
  "stored (runAll [(1000, [''add'', ''Task A'']), (500, [''mark-done'', ''1''])] emptyDisk) =
     [\<lparr>id' = JNumber 1, name = ''Task A'', description = [], status = ''done'',
        createdAt = 1000, updatedAt = 500\<rparr>]"
  by code_simp

text \<open>
  C8, amended. After any sequence of at most \<open>2 ^ 53\<close> invocations from a disk whose
  store is empty, the stored ids are distinct after coercion and each is a positive
  integer, every status is one of \<open>todo\<close>, \<open>in-progress\<close>, \<open>done\<close>, and, when the clock
  readings of the invocations never decrease, every task has createdAt at most
  updatedAt. (Up to \<open>2 ^ 53\<close> the sum \<open>max + 1\<close> of \<open>getNextId\<close> is exact.)
\<close>

theorem reachable_invariants:
  assumes "stored d0 = []" and "length is \<le> 2 ^ 53"
  shows "let ts = stored (runAll is d0)
         in distinct (map (\<lambda>t. Number (id' t)) ts)
          \<and> list_all positiveIntegerId ts
          \<and> list_all (\<lambda>t. status t \<in> set allowed) ts
          \<and> (sorted (map fst is) \<longrightarrow> list_all (\<lambda>t. createdAt t \<le> updatedAt t) ts)"
proof -
  let ?ts = "stored (runAll is d0)"
  have "idsBelow 0 (stored d0)" by (simp add: assms(1) idsBelow_def idsOrdered_def)
  from runAll_idsBelow [OF this, of "is"] assms(2)
  have ord: "idsOrdered ?ts" by (simp add: idsBelow_def)
  have "list_all (\<lambda>t. status t \<in> set allowed) (stored d0)" by (simp add: assms(1))
  then have st: "list_all (\<lambda>t. status t \<in> set allowed) ?ts" by (rule runAll_statuses)
  have tm: "list_all (\<lambda>t. createdAt t \<le> updatedAt t) ?ts" if "sorted (map fst is)"
  proof (cases "is")
    case Nil
    then show ?thesis by (simp add: runAll_def assms(1))
  next
    case (Cons i is')
    have "stampedBy (fst i) (stored d0)" by (simp add: assms(1) stampedBy_def)
    moreover have "sorted (fst i # map fst is)" using that Cons by simp
    ultimately have "stampedBy (last (fst i # map fst is)) ?ts" by (rule runAll_stampedBy)
    then show ?thesis by (auto simp: stampedBy_def list_all_iff)
  qed
  show ?thesis
    unfolding Let_def using ord st tm idsOrdered_distinct [OF ord]
    by (simp add: idsOrdered_def)
qed

theorem reachable_invariants_witness:
  "stored emptyDisk = []
   \<and> length [(100 :: int, [''add'', ''Task A'']), (200, [''add'', ''Task B'', ''desc'']),
              (300, [''mark-done'', ''1''])] \<le> 2 ^ 53
   \<and> sorted (map fst [(100 :: int, [''add'', ''Task A'']), (200, [''add'', ''Task B'', ''desc'']),
                        (300, [''mark-done'', ''1''])])
   \<and> map status (stored (runAll [(100, [''add'', ''Task A'']), (200, [''add'', ''Task B'', ''desc'']),
                                   (300, [''mark-done'', ''1''])] emptyDisk)) = [''done'', ''todo'']
   \<and> list_all (\<lambda>t. createdAt t \<le> updatedAt t)
        (stored (runAll [(100, [''add'', ''Task A'']), (200, [''add'', ''Task B'', ''desc'']),
                         (300, [''mark-done'', ''1''])] emptyDisk))"
proof -
  let ?is = "[(100 :: int, [''add'', ''Task A'']), (200, [''add'', ''Task B'', ''desc'']),
              (300, [''mark-done'', ''1''])]"
  have e: "stored emptyDisk = []" by code_simp
  have l: "length ?is \<le> 2 ^ 53" by simp
  have s: "sorted (map fst ?is)" by simp
  have m: "map status (stored (runAll ?is emptyDisk)) = [''done'', ''todo'']"
    by code_simp
  from reachable_invariants [OF e l] s
  have "list_all (\<lambda>t. createdAt t \<le> updatedAt t) (stored (runAll ?is emptyDisk))"
    by (simp add: Let_def)
  with e l s m show ?thesis by simp
qed

section \<open>The ids \<open>add\<close> assigns\<close>





end
